theory Spec2Isabelle
  imports Complex_Main "HOL-Library.While_Combinator"
begin

section \<open>The host's Date object\<close>

text \<open>
  The functions of \<^verbatim>\<open>core-js-dates-tasks.js\<close> are written against the built-in
  \<^verbatim>\<open>Date\<close> object. A valid Date is modelled by its time value, the integer number
  of milliseconds since 1970-01-01T00:00:00Z, and the calendar fields are computed from
  it with the abstract operations of ECMA-262 (section "Date Objects"): \<open>Day\<close>,
  \<open>DayFromYear\<close>, \<open>YearFromTime\<close>, \<open>MonthFromTime\<close>, \<open>DateFromTime\<close>,
  \<open>WeekDay\<close>, \<open>MakeDay\<close>, \<open>MakeDate\<close>, \<open>MakeFullYear\<close>.

  Numbers are integers throughout (a double holds every one of them exactly), except
  the quotient of \<^verbatim>\<open>getCountDaysOnPeriod\<close>, which is a rational.

  A Date that the code builds is an \<open>int option\<close>: \<open>TimeClip\<close> turns a time value
  beyond 8.64e15 ms into the Invalid Date, \<open>None\<close>, whose fields are all
  \<^verbatim>\<open>NaN\<close>. The argument of a function is the time value of a valid Date.

  One idealisation is made: the local time zone is a constant offset \<open>tz\<close> in
  milliseconds (local time = UTC + \<open>tz\<close>), a parameter of every function that reads or
  builds local fields; daylight-saving changes are not modelled.
\<close>

definition msPerDay :: int where
  "msPerDay = 86400000"

definition Day :: "int \<Rightarrow> int" where
  "Day t = t div msPerDay"

definition TimeWithinDay :: "int \<Rightarrow> int" where
  "TimeWithinDay t = t mod msPerDay"

definition DaysInYear :: "int \<Rightarrow> int" where
  "DaysInYear y =
     (if y mod 4 \<noteq> 0 then 365
      else if y mod 100 \<noteq> 0 then 366
      else if y mod 400 \<noteq> 0 then 365
      else 366)"

definition DayFromYear :: "int \<Rightarrow> int" where
  "DayFromYear y =
     365 * (y - 1970) + (y - 1969) div 4 - (y - 1901) div 100 + (y - 1601) div 400"

text \<open>
  ECMA-262 specifies \<open>YearFromTime t\<close> as the largest \<open>y\<close> with
  \<open>DayFromYear y \<le> Day t\<close>. The executable form estimates the year from the mean
  length of a Gregorian year and corrects the estimate by at most one; lemmas
  \<open>YearFromDay_lower\<close> and \<open>YearFromDay_upper\<close> show that it meets the
  specification.
\<close>

definition YearFromDay :: "int \<Rightarrow> int" where
  "YearFromDay d =
     (let y = 1970 + (d * 400) div 146097
      in if d < DayFromYear y then y - 1
         else if DayFromYear (y + 1) \<le> d then y + 1
         else y)"

definition YearFromTime :: "int \<Rightarrow> int" where
  "YearFromTime t = YearFromDay (Day t)"

definition InLeapYear :: "int \<Rightarrow> int" where
  "InLeapYear t = (if DaysInYear (YearFromTime t) = 366 then 1 else 0)"

definition DayWithinYear :: "int \<Rightarrow> int" where
  "DayWithinYear t = Day t - DayFromYear (YearFromTime t)"

definition MonthFromTime :: "int \<Rightarrow> int" where
  "MonthFromTime t =
     (let d = DayWithinYear t; l = InLeapYear t
      in if d < 31 then 0
         else if d < 59 + l then 1
         else if d < 90 + l then 2
         else if d < 120 + l then 3
         else if d < 151 + l then 4
         else if d < 181 + l then 5
         else if d < 212 + l then 6
         else if d < 243 + l then 7
         else if d < 273 + l then 8
         else if d < 304 + l then 9
         else if d < 334 + l then 10
         else 11)"

definition DateFromTime :: "int \<Rightarrow> int" where
  "DateFromTime t =
     (let d = DayWithinYear t; l = InLeapYear t; m = MonthFromTime t
      in if m = 0 then d + 1
         else if m = 1 then d - 30
         else if m = 2 then d - 58 - l
         else if m = 3 then d - 89 - l
         else if m = 4 then d - 119 - l
         else if m = 5 then d - 150 - l
         else if m = 6 then d - 180 - l
         else if m = 7 then d - 211 - l
         else if m = 8 then d - 242 - l
         else if m = 9 then d - 272 - l
         else if m = 10 then d - 303 - l
         else d - 333 - l)"

definition WeekDay :: "int \<Rightarrow> int" where
  "WeekDay t = (Day t + 4) mod 7"

definition HourFromTime :: "int \<Rightarrow> int" where
  "HourFromTime t = (t div 3600000) mod 24"

definition MinFromTime :: "int \<Rightarrow> int" where
  "MinFromTime t = (t div 60000) mod 60"

definition SecFromTime :: "int \<Rightarrow> int" where
  "SecFromTime t = (t div 1000) mod 60"

definition MakeTime :: "int \<Rightarrow> int \<Rightarrow> int \<Rightarrow> int \<Rightarrow> int" where
  "MakeTime h m s ms = h * 3600000 + m * 60000 + s * 1000 + ms"

text \<open>The day number, within its year, on which month \<open>mn\<close> (0 to 11) begins.\<close>

definition DayFromMonth :: "int \<Rightarrow> int \<Rightarrow> int" where
  "DayFromMonth mn l =
     (if mn = 0 then 0
      else if mn = 1 then 31
      else if mn = 2 then 59 + l
      else if mn = 3 then 90 + l
      else if mn = 4 then 120 + l
      else if mn = 5 then 151 + l
      else if mn = 6 then 181 + l
      else if mn = 7 then 212 + l
      else if mn = 8 then 243 + l
      else if mn = 9 then 273 + l
      else if mn = 10 then 304 + l
      else 334 + l)"

text \<open>
  \<open>MakeDay\<close> carries a month outside 0 to 11 into the year, then counts from the first
  day of that month; a day of the month outside the month's length runs over into the
  neighbouring months.
\<close>

definition MakeDay :: "int \<Rightarrow> int \<Rightarrow> int \<Rightarrow> int" where
  "MakeDay y m dt =
     (let ym = y + m div 12; mn = m mod 12
      in DayFromYear ym + DayFromMonth mn (if DaysInYear ym = 366 then 1 else 0) + dt - 1)"

definition MakeDate :: "int \<Rightarrow> int \<Rightarrow> int" where
  "MakeDate day time = day * msPerDay + time"

definition MakeFullYear :: "int \<Rightarrow> int" where
  "MakeFullYear y = (if 0 \<le> y \<and> y \<le> 99 then 1900 + y else y)"

definition TimeClip :: "int \<Rightarrow> int option" where
  "TimeClip t = (if \<bar>t\<bar> \<le> 8640000000000000 then Some t else None)"

definition LocalTime :: "int \<Rightarrow> int \<Rightarrow> int" where
  "LocalTime tz t = t + tz"

definition UTC :: "int \<Rightarrow> int \<Rightarrow> int" where
  "UTC tz t = t - tz"

subsection \<open>Constructors and accessors\<close>

text \<open>
  \<^verbatim>\<open>Date.UTC(year, month, day)\<close> and \<^verbatim>\<open>new Date(year, month, day)\<close>: the time
  value that each computes from its arguments, and the result, which is that value
  clipped to the range of a Date.
\<close>

definition Date_UTC_value :: "int \<Rightarrow> int \<Rightarrow> int \<Rightarrow> int" where
  "Date_UTC_value y m d = MakeDate (MakeDay (MakeFullYear y) m d) (MakeTime 0 0 0 0)"

definition new_Date_value :: "int \<Rightarrow> int \<Rightarrow> int \<Rightarrow> int \<Rightarrow> int" where
  "new_Date_value tz y m d =
     UTC tz (MakeDate (MakeDay (MakeFullYear y) m d) (MakeTime 0 0 0 0))"

definition Date_UTC :: "int \<Rightarrow> int \<Rightarrow> int \<Rightarrow> int option" where
  "Date_UTC y m d = TimeClip (Date_UTC_value y m d)"

definition new_Date :: "int \<Rightarrow> int \<Rightarrow> int \<Rightarrow> int \<Rightarrow> int option" where
  "new_Date tz y m d = TimeClip (new_Date_value tz y m d)"

definition getUTCFullYear :: "int \<Rightarrow> int" where
  "getUTCFullYear t = YearFromTime t"

definition getUTCMonth :: "int \<Rightarrow> int" where
  "getUTCMonth t = MonthFromTime t"

definition getUTCDate :: "int \<Rightarrow> int" where
  "getUTCDate t = DateFromTime t"

definition getUTCDay :: "int \<Rightarrow> int" where
  "getUTCDay t = WeekDay t"

definition getUTCHours :: "int \<Rightarrow> int" where
  "getUTCHours t = HourFromTime t"

definition getUTCMinutes :: "int \<Rightarrow> int" where
  "getUTCMinutes t = MinFromTime t"

definition getUTCSeconds :: "int \<Rightarrow> int" where
  "getUTCSeconds t = SecFromTime t"

definition getFullYear :: "int \<Rightarrow> int \<Rightarrow> int" where
  "getFullYear tz t = YearFromTime (LocalTime tz t)"

definition getMonth :: "int \<Rightarrow> int \<Rightarrow> int" where
  "getMonth tz t = MonthFromTime (LocalTime tz t)"

definition getDate :: "int \<Rightarrow> int \<Rightarrow> int" where
  "getDate tz t = DateFromTime (LocalTime tz t)"

definition getDay :: "int \<Rightarrow> int \<Rightarrow> int" where
  "getDay tz t = WeekDay (LocalTime tz t)"

definition getHours :: "int \<Rightarrow> int \<Rightarrow> int" where
  "getHours tz t = HourFromTime (LocalTime tz t)"

definition getMinutes :: "int \<Rightarrow> int \<Rightarrow> int" where
  "getMinutes tz t = MinFromTime (LocalTime tz t)"

definition getSeconds :: "int \<Rightarrow> int \<Rightarrow> int" where
  "getSeconds tz t = SecFromTime (LocalTime tz t)"

subsection \<open>Numbers, strings and arrays\<close>

text \<open>The remainder operator \<^verbatim>\<open>%\<close> takes the sign of the dividend.\<close>

definition js_rem :: "int \<Rightarrow> int \<Rightarrow> int" where
  "js_rem a b = sgn a * (\<bar>a\<bar> mod \<bar>b\<bar>)"

text \<open>Reading an array at an index it does not have gives \<^verbatim>\<open>undefined\<close>: \<open>None\<close>.\<close>

definition array_get :: "'a list \<Rightarrow> int \<Rightarrow> 'a option" where
  "array_get xs i = (if 0 \<le> i \<and> i < int (length xs) then Some (xs ! nat i) else None)"

definition digit_char :: "nat \<Rightarrow> char" where
  "digit_char n = ''0123456789'' ! n"

fun digits10 :: "nat \<Rightarrow> string" where
  "digits10 n = (if n < 10 then [digit_char n] else digits10 (n div 10) @ [digit_char (n mod 10)])"

declare digits10.simps [simp del]

text \<open>The decimal text of an integer, as a template literal inserts it.\<close>

definition ToString :: "int \<Rightarrow> string" where
  "ToString i = (if i < 0 then CHR ''-'' # digits10 (nat (- i)) else digits10 (nat i))"

definition is_digit :: "char \<Rightarrow> bool" where
  "is_digit c = (48 \<le> (of_char c :: nat) \<and> (of_char c :: nat) \<le> 57)"

fun digits_val :: "nat \<Rightarrow> string \<Rightarrow> nat option" where
  "digits_val acc [] = Some acc"
| "digits_val acc (c # cs) =
     (if is_digit c then digits_val (10 * acc + (of_char c - 48)) cs else None)"

text \<open>
  The conversion of a string to a number, for the strings the date formats are made of:
  a non-empty group of decimal digits. Any other string is outside the model (\<open>None\<close>).
\<close>

definition ToNumber :: "string \<Rightarrow> int option" where
  "ToNumber s = (if s = [] then None else map_option int (digits_val 0 s))"

text \<open>\<^verbatim>\<open>String.prototype.split\<close> with a one-character separator.\<close>

fun split :: "char \<Rightarrow> string \<Rightarrow> string list" where
  "split c [] = [[]]"
| "split c (x # xs) =
     (if x = c then [] # split c xs
      else (case split c xs of [] \<Rightarrow> [[x]] | w # ws \<Rightarrow> (x # w) # ws))"

text \<open>
  \<^verbatim>\<open>new Date(string)\<close> for the format the doc comments give,
  \<^verbatim>\<open>YYYY-MM-DDTHH:mm:ss.sssZ\<close>. Any other string is outside the model (\<open>None\<close>).
\<close>

definition Date_parse :: "string \<Rightarrow> int option" where
  "Date_parse s =
     (if length s = 24 \<and> s ! 4 = CHR ''-'' \<and> s ! 7 = CHR ''-'' \<and> s ! 10 = CHR ''T''
         \<and> s ! 13 = CHR '':'' \<and> s ! 16 = CHR '':'' \<and> s ! 19 = CHR ''.'' \<and> s ! 23 = CHR ''Z''
      then
        (case (ToNumber (take 4 s), ToNumber (take 2 (drop 5 s)), ToNumber (take 2 (drop 8 s)),
               ToNumber (take 2 (drop 11 s)), ToNumber (take 2 (drop 14 s)),
               ToNumber (take 2 (drop 17 s)), ToNumber (take 3 (drop 20 s))) of
           (Some y, Some m, Some d, Some h, Some mi, Some sec, Some ms) \<Rightarrow>
             if 1 \<le> m \<and> m \<le> 12 \<and> 1 \<le> d \<and> MakeDay y (m - 1) d < MakeDay y m 1
                \<and> h \<le> 23 \<and> mi \<le> 59 \<and> sec \<le> 59
             then TimeClip (MakeDate (MakeDay y (m - 1) d) (MakeTime h mi sec ms))
             else None
         | _ \<Rightarrow> None)
      else None)"

section \<open>The functions of core-js-dates-tasks.js\<close>

text \<open>
  Each function takes the time value that its \<^verbatim>\<open>new Date(date)\<close> produces from the
  argument (a Date, or a date string read by \<open>Date_parse\<close>).
\<close>

subsection \<open>getTime\<close>

definition getTime :: "int \<Rightarrow> int \<Rightarrow> string" where
  "getTime tz currentDate =
     (let hours = getHours tz currentDate;
          hours' = (if hours < 9 then ''0'' @ ToString hours else ToString hours);
          minutes = getMinutes tz currentDate;
          minutes' = (if minutes < 9 then ''0'' @ ToString minutes else ToString minutes);
          secunds = getSeconds tz currentDate;
          secunds' = (if secunds < 9 then ''0'' @ ToString secunds else ToString secunds)
      in hours' @ '':'' @ minutes' @ '':'' @ secunds')"

subsection \<open>getNextFriday\<close>

definition getNextFriday :: "int \<Rightarrow> int option" where
  "getNextFriday currentDate =
     (let day = getUTCDay currentDate;
          milliSeconds = currentDate;
          daysTillFriday = (if day < 5 then 5 - day else 7 - day + 5);
          newDate = milliSeconds + 86400000 * daysTillFriday
      in TimeClip newDate)"

subsection \<open>getCountDaysInMonth\<close>

definition daysInMonth :: "int list" where
  "daysInMonth = [31, 28, 31, 30, 31, 30, 31, 31, 30, 31, 30, 31]"

definition getCountDaysInMonth :: "int \<Rightarrow> int \<Rightarrow> int option" where
  "getCountDaysInMonth month year =
     (if month = 2 \<and> js_rem year 4 = 0 then Some 29
      else array_get daysInMonth (month - 1))"

subsection \<open>getCountDaysOnPeriod\<close>

text \<open>
  The quotient is a JavaScript number; it is modelled by the exact rational, which is
  the number itself whenever the difference is a whole number of days.
\<close>

definition getCountDaysOnPeriod :: "int \<Rightarrow> int \<Rightarrow> rat" where
  "getCountDaysOnPeriod dateOne dateTwo =
     (let result = dateTwo - dateOne
      in of_int result / (1000 * 60 * 60 * 24) + 1)"

subsection \<open>formatDate\<close>

definition formatDate :: "int \<Rightarrow> string" where
  "formatDate currentDate =
     (let day = getUTCDate currentDate;
          month = getUTCMonth currentDate;
          year = getUTCFullYear currentDate;
          hours = getUTCHours currentDate;
          minutes = getUTCMinutes currentDate;
          secunds = getUTCSeconds currentDate;
          timeOfDay = (if hours \<ge> 12 then ''PM'' else ''AM'');
          hours' = (if hours > 12 then hours - 12 else hours);
          minutes' = (if minutes < 9 then ''0'' @ ToString minutes else ToString minutes);
          secunds' = (if secunds < 9 then ''0'' @ ToString secunds else ToString secunds)
      in ToString (month + 1) @ ''/'' @ ToString day @ ''/'' @ ToString year @ '', ''
         @ ToString hours' @ '':'' @ minutes' @ '':'' @ secunds' @ '' '' @ timeOfDay)"

subsection \<open>getWeekNumberByDate\<close>

text \<open>
  When \<^verbatim>\<open>firstDayOfYear\<close> is an Invalid Date, the difference of the dates, the
  quotient and its ceiling are \<^verbatim>\<open>NaN\<close>: \<open>None\<close>.
\<close>

definition getWeekNumberByDate :: "int \<Rightarrow> int \<Rightarrow> int option" where
  "getWeekNumberByDate tz date =
     (let year = getFullYear tz date
      in case new_Date tz year 0 1 of
           None \<Rightarrow> None
         | Some firstDayOfYear \<Rightarrow>
             (let diff = getCountDaysOnPeriod firstDayOfYear date
              in Some \<lceil>diff / 7\<rceil>))"

subsection \<open>isLeapYear\<close>

definition isLeapYear :: "int \<Rightarrow> int \<Rightarrow> bool" where
  "isLeapYear tz date = (let year = getFullYear tz date in js_rem year 4 = 0)"

subsection \<open>getNextFridayThe13th\<close>

text \<open>
  The variables of the search loop. \<open>res\<close> starts as the number \<^verbatim>\<open>-1\<close> and
  becomes a Date once; \<open>None\<close> stands for \<^verbatim>\<open>-1\<close> and \<open>Some t\<close> for the Date
  with time value \<open>t\<close>.
\<close>

record search =
  year :: int
  month :: int
  res :: "int option"

text \<open>
  One run of the loop body, with the branches in the order of the source. The day of the
  week of an Invalid Date is \<^verbatim>\<open>NaN\<close> (\<open>None\<close>), which is not 5; a test date whose
  day is 5 is a valid Date, and \<open>res\<close> becomes that Date.
\<close>

definition search_body :: "int \<Rightarrow> search \<Rightarrow> search" where
  "search_body tz s =
     (let testDate = new_Date tz (year s) (month s) 13;
          day = map_option (getDay tz) testDate
      in if day = Some 5 then s\<lparr>res := testDate\<rparr>
         else if month s < 12 then s\<lparr>month := month s + 1\<rparr>
         else s\<lparr>month := 0, year := year s + 1\<rparr>)"

text \<open>
  The third branch of the body is the one run in a state where the thirteenth is not a
  Friday and \<^verbatim>\<open>month < 12\<close> is false.
\<close>

definition takes_else :: "int \<Rightarrow> search \<Rightarrow> bool" where
  "takes_else tz s =
     (map_option (getDay tz) (new_Date tz (year s) (month s) 13) \<noteq> Some 5
      \<and> \<not> month s < 12)"

definition search_init :: "int \<Rightarrow> int \<Rightarrow> search" where
  "search_init tz date = \<lparr>year = getFullYear tz date, month = getMonth tz date, res = None\<rparr>"

text \<open>
  \<^verbatim>\<open>while (res === -1)\<close>: \<open>while_option\<close> is \<open>None\<close> when the loop never ends.
\<close>

definition getNextFridayThe13th :: "int \<Rightarrow> int \<Rightarrow> int option" where
  "getNextFridayThe13th tz date =
     (case while_option (\<lambda>s. res s = None) (search_body tz) (search_init tz date) of
        None \<Rightarrow> None
      | Some s \<Rightarrow> res s)"

subsection \<open>getWorkSchedule\<close>

record DatePeriod =
  start :: string
  endp :: string

text \<open>
  The two variables the loops of \<^verbatim>\<open>getWorkSchedule\<close> change; \<open>date\<close> is a Date,
  \<open>None\<close> when it is the Invalid Date.
\<close>

record schedule =
  date :: "int option"
  scheduleArr :: "string list"

text \<open>
  \<^verbatim>\<open>endDate - date >= 0\<close>: false when one of the two is the Invalid Date, the
  difference being \<^verbatim>\<open>NaN\<close>.
\<close>

definition not_after :: "int option \<Rightarrow> int option \<Rightarrow> bool" where
  "not_after dt endDate =
     (case (endDate, dt) of (Some e, Some d) \<Rightarrow> e - d \<ge> 0 | _ \<Rightarrow> False)"

text \<open>
  The body of the \<^verbatim>\<open>for\<close> loop: one working day is written down, and the next date
  is built by the local-time constructor from the UTC fields. For an Invalid Date the
  test is false and nothing is done.
\<close>

definition work_day :: "int \<Rightarrow> int option \<Rightarrow> schedule \<Rightarrow> schedule" where
  "work_day tz endDate st =
     (case date st of
        None \<Rightarrow> st
      | Some d \<Rightarrow>
          if not_after (date st) endDate then
            (let year = getUTCFullYear d;
                 month = getUTCMonth d;
                 day = getUTCDate d;
                 printDay = (if day < 10 then ''0'' @ ToString day else ToString day);
                 printMonth =
                   (if month < 10 then ''0'' @ ToString (month + 1) else ToString (month + 1))
             in \<lparr>date = new_Date tz year month (day + 1),
                 scheduleArr =
                   scheduleArr st @ [printDay @ ''-'' @ printMonth @ ''-'' @ ToString year]\<rparr>)
          else st)"

function work_days :: "int \<Rightarrow> int option \<Rightarrow> int \<Rightarrow> schedule \<Rightarrow> schedule" where
  "work_days tz endDate i st =
     (if i > 0 then work_days tz endDate (i - 1) (work_day tz endDate st) else st)"
  by pat_completeness auto
termination
  by (relation "measure (\<lambda>(tz, endDate, i, st). nat i)") auto

declare work_days.simps [simp del]

text \<open>
  The body of the \<^verbatim>\<open>while\<close> loop: the working days, then the days off. The fields
  of an Invalid Date are \<^verbatim>\<open>NaN\<close>, and so is the \<^verbatim>\<open>Date.UTC\<close> of them.
\<close>

definition cycle :: "int \<Rightarrow> int option \<Rightarrow> int \<Rightarrow> int \<Rightarrow> schedule \<Rightarrow> schedule" where
  "cycle tz endDate countWorkDays countOffDays st =
     (let st' = work_days tz endDate countWorkDays st
      in case date st' of
           None \<Rightarrow> st'
         | Some d \<Rightarrow>
             (let year = getUTCFullYear d;
                  month = getUTCMonth d;
                  day = getUTCDate d
              in st'\<lparr>date := Date_UTC year month (day + countOffDays)\<rparr>))"

text \<open>
  The result is \<open>None\<close> when a date of the period is not three groups of digits
  (outside the model of \<open>ToNumber\<close>) or when the \<^verbatim>\<open>while\<close> loop never ends.
\<close>

definition getWorkSchedule :: "int \<Rightarrow> DatePeriod \<Rightarrow> int \<Rightarrow> int \<Rightarrow> string list option" where
  "getWorkSchedule tz period countWorkDays countOffDays =
     (let dateArr = split CHR ''-'' (start period);
          endDateArr = split CHR ''-'' (endp period)
      in case (Option.bind (array_get dateArr 2) ToNumber,
               Option.bind (array_get dateArr 1) ToNumber,
               Option.bind (array_get dateArr 0) ToNumber,
               Option.bind (array_get endDateArr 2) ToNumber,
               Option.bind (array_get endDateArr 1) ToNumber,
               Option.bind (array_get endDateArr 0) ToNumber) of
           (Some y, Some m, Some d, Some ey, Some em, Some ed) \<Rightarrow>
             (let endDate = Date_UTC ey (em - 1) ed
              in map_option scheduleArr
                   (while_option (\<lambda>st. not_after (date st) endDate)
                      (cycle tz endDate countWorkDays countOffDays)
                      \<lparr>date = Date_UTC y (m - 1) d, scheduleArr = []\<rparr>))
         | _ \<Rightarrow> None)"

section \<open>Reference definitions\<close>

text \<open>
  The rule the specification states for the padded fields of \<^verbatim>\<open>getTime\<close> and
  \<^verbatim>\<open>formatDate\<close>: a leading zero exactly when the value is less than 9.
\<close>

definition pad_below_9 :: "int \<Rightarrow> string" where
  "pad_below_9 v = (if v < 9 then CHR ''0'' # ToString v else ToString v)"

text \<open>
  The week number of ISO 8601, for the day number \<open>d\<close> (days since 1970-01-01): weeks
  run from Monday to Sunday and belong to the year that holds their Thursday.
\<close>

definition iso_week :: "int \<Rightarrow> int" where
  "iso_week d =
     (let wd = (d + 3) mod 7;
          thursday = d - wd + 3
      in (thursday - DayFromYear (YearFromDay thursday)) div 7 + 1)"

section \<open>The calendar\<close>

lemma fdiv_lower: "0 < k \<Longrightarrow> k * (x div k) \<le> (x::int)"
proof -
  assume k: "0 < k"
  have "k * (x div k) + x mod k = x" by simp
  moreover have "0 \<le> x mod k" using k by simp
  ultimately show ?thesis by linarith
qed

lemma fdiv_upper: "0 < k \<Longrightarrow> (x::int) < k * (x div k) + k"
proof -
  assume k: "0 < k"
  have "k * (x div k) + x mod k = x" by simp
  moreover have "x mod k < k" using k by simp
  ultimately show ?thesis by linarith
qed

lemma DayFromYear_upper: "400 * DayFromYear y \<le> 146097 * y - 287810501"
proof -
  define a where "a = (y - 1969) div 4"
  define b where "b = (y - 1901) div 100"
  define c where "c = (y - 1601) div 400"
  have "4 * a \<le> y - 1969" unfolding a_def by (rule fdiv_lower) simp
  moreover have "y - 1901 < 100 * b + 100" unfolding b_def by (rule fdiv_upper) simp
  moreover have "400 * c \<le> y - 1601" unfolding c_def by (rule fdiv_lower) simp
  ultimately show ?thesis
    unfolding DayFromYear_def a_def [symmetric] b_def [symmetric] c_def [symmetric]
    by (simp add: algebra_simps)
qed

lemma DayFromYear_lower: "146097 * y - 287811596 \<le> 400 * DayFromYear y"
proof -
  define a where "a = (y - 1969) div 4"
  define b where "b = (y - 1901) div 100"
  define c where "c = (y - 1601) div 400"
  have "y - 1969 < 4 * a + 4" unfolding a_def by (rule fdiv_upper) simp
  moreover have "100 * b \<le> y - 1901" unfolding b_def by (rule fdiv_lower) simp
  moreover have "y - 1601 < 400 * c + 400" unfolding c_def by (rule fdiv_upper) simp
  ultimately show ?thesis
    unfolding DayFromYear_def a_def [symmetric] b_def [symmetric] c_def [symmetric]
    by (simp add: algebra_simps)
qed

lemma YearFromDay_lower: "DayFromYear (YearFromDay d) \<le> d"
proof -
  define q where "q = (d * 400) div 146097"
  have q: "146097 * q \<le> d * 400" unfolding q_def by (rule fdiv_lower) simp
  have u: "400 * DayFromYear (1970 + q - 1) \<le> 146097 * (1970 + q - 1) - 287810501"
    by (rule DayFromYear_upper)
  have "DayFromYear (1970 + q - 1) \<le> d" using q u by (simp add: algebra_simps)
  then show ?thesis
    unfolding YearFromDay_def Let_def q_def [symmetric] by auto
qed

lemma YearFromDay_upper: "d < DayFromYear (YearFromDay d + 1)"
proof -
  define q where "q = (d * 400) div 146097"
  have q: "d * 400 < 146097 * q + 146097" unfolding q_def by (rule fdiv_upper) simp
  have l: "146097 * (1970 + q + 1 + 1) - 287811596 \<le> 400 * DayFromYear (1970 + q + 1 + 1)"
    by (rule DayFromYear_lower)
  have "d < DayFromYear (1970 + q + 1 + 1)" using q l by (simp add: algebra_simps)
  then show ?thesis
    unfolding YearFromDay_def Let_def q_def [symmetric] by auto
qed

lemma div_succ:
  assumes k: "0 < (k::int)"
  shows "(x + 1) div k = x div k + (if (x + 1) mod k = 0 then 1 else 0)"
proof -
  define q where "q = x div k"
  define r where "r = x mod k"
  have x: "x = k * q + r" unfolding q_def r_def by simp
  have r: "0 \<le> r" "r < k" unfolding r_def using k by simp_all
  show ?thesis
  proof (cases "r + 1 = k")
    case True
    then have "x + 1 = k * (q + 1)" using x by (simp add: algebra_simps)
    then have "(x + 1) div k = q + 1" "(x + 1) mod k = 0" using k by simp_all
    then show ?thesis unfolding q_def by simp
  next
    case False
    then have r1: "0 \<le> r + 1" "r + 1 < k" using r by simp_all
    have x1: "x + 1 = k * q + (r + 1)" using x by simp
    have "(x + 1) div k = q" using int_div_pos_eq [OF x1 r1] .
    moreover have "(x + 1) mod k = r + 1" using int_mod_pos_eq [OF x1 r1] .
    ultimately show ?thesis unfolding q_def using r by simp
  qed
qed

lemma mod_shift: "((y::int) - k * c) mod k = 0 \<longleftrightarrow> y mod k = 0"
  by (metis add.commute diff_add_cancel mod_mult_self2)

lemma mod_100_4: "(y::int) mod 100 = 0 \<Longrightarrow> y mod 4 = 0"
proof -
  assume "y mod 100 = 0"
  then have "100 dvd y" by (simp add: dvd_eq_mod_eq_0)
  moreover have "(4::int) dvd 100" by simp
  ultimately have "4 dvd y" by (rule dvd_trans [rotated])
  then show ?thesis by (simp add: dvd_eq_mod_eq_0)
qed

lemma mod_400_100: "(y::int) mod 400 = 0 \<Longrightarrow> y mod 100 = 0"
proof -
  assume "y mod 400 = 0"
  then have "400 dvd y" by (simp add: dvd_eq_mod_eq_0)
  moreover have "(100::int) dvd 400" by simp
  ultimately have "100 dvd y" by (rule dvd_trans [rotated])
  then show ?thesis by (simp add: dvd_eq_mod_eq_0)
qed

lemma DayFromYear_step: "DayFromYear (y + 1) = DayFromYear y + DaysInYear y"
proof -
  have a: "(y + 1 - 1969) div 4 = (y - 1969) div 4 + (if y mod 4 = 0 then 1 else 0)"
    using div_succ [of 4 "y - 1969"] mod_shift [of y 4 492] by (simp add: algebra_simps)
  have b: "(y + 1 - 1901) div 100 = (y - 1901) div 100 + (if y mod 100 = 0 then 1 else 0)"
    using div_succ [of 100 "y - 1901"] mod_shift [of y 100 19] by (simp add: algebra_simps)
  have c: "(y + 1 - 1601) div 400 = (y - 1601) div 400 + (if y mod 400 = 0 then 1 else 0)"
    using div_succ [of 400 "y - 1601"] mod_shift [of y 400 4] by (simp add: algebra_simps)
  show ?thesis
    unfolding DayFromYear_def DaysInYear_def a b c
    using mod_100_4 [of y] mod_400_100 [of y] by auto
qed

lemma DaysInYear_range: "DaysInYear y = 365 \<or> DaysInYear y = 366"
  by (simp add: DaysInYear_def)

lemma DayFromYear_mono_nat: "DayFromYear y \<le> DayFromYear (y + int n)"
proof (induction n)
  case 0
  then show ?case by simp
next
  case (Suc n)
  have "DayFromYear (y + int (Suc n)) = DayFromYear (y + int n) + DaysInYear (y + int n)"
    using DayFromYear_step [of "y + int n"] by (simp add: algebra_simps)
  then show ?case using Suc DaysInYear_range [of "y + int n"] by linarith
qed

lemma DayFromYear_mono: "a \<le> b \<Longrightarrow> DayFromYear a \<le> DayFromYear b"
  using DayFromYear_mono_nat [of a "nat (b - a)"] by simp

lemma YearFromDay_unique:
  assumes "DayFromYear y \<le> d" and "d < DayFromYear (y + 1)"
  shows "YearFromDay d = y"
proof (rule ccontr)
  assume ne: "YearFromDay d \<noteq> y"
  show False
  proof (cases "YearFromDay d < y")
    case True
    then have "DayFromYear (YearFromDay d + 1) \<le> DayFromYear y" by (intro DayFromYear_mono) simp
    then show False using YearFromDay_upper [of d] assms by linarith
  next
    case False
    then have "DayFromYear (y + 1) \<le> DayFromYear (YearFromDay d)" using ne by (intro DayFromYear_mono) simp
    then show False using YearFromDay_lower [of d] assms by linarith
  qed
qed

lemma YearFromDay_DayFromYear: "YearFromDay (DayFromYear y) = y"
  using DayFromYear_step [of y] DaysInYear_range [of y] by (intro YearFromDay_unique) auto

lemma Day_MakeDate: "0 \<le> tm \<Longrightarrow> tm < msPerDay \<Longrightarrow> Day (MakeDate d tm) = d"
  unfolding Day_def MakeDate_def msPerDay_def
  by (rule int_div_pos_eq [where r = tm]) simp_all

lemma LocalTime_UTC: "LocalTime tz (UTC tz t) = t"
  by (simp add: LocalTime_def UTC_def)

lemma Day_new_Date_value: "Day (LocalTime tz (new_Date_value tz y m d)) = MakeDay (MakeFullYear y) m d"
  unfolding new_Date_value_def LocalTime_UTC
  by (rule Day_MakeDate) (simp_all add: MakeTime_def msPerDay_def)

lemma getDay_new_Date_value: "getDay tz (new_Date_value tz y m d) = (MakeDay (MakeFullYear y) m d + 4) mod 7"
  by (simp add: getDay_def WeekDay_def Day_new_Date_value)

lemma MakeDay_month: "0 \<le> m \<Longrightarrow> m \<le> 11 \<Longrightarrow>
    MakeDay y m d = DayFromYear y + DayFromMonth m (if DaysInYear y = 366 then 1 else 0) + d - 1"
  by (simp add: MakeDay_def Let_def)

text \<open>Every year has a Friday the 13th.\<close>

lemma mod7_cases:
  "(D::int) mod 7 = 0 \<or> D mod 7 = 1 \<or> D mod 7 = 2 \<or> D mod 7 = 3 \<or> D mod 7 = 4
     \<or> D mod 7 = 5 \<or> D mod 7 = 6"
  by presburger

lemma friday_13th_common:
  "\<exists>m. 0 \<le> m \<and> m \<le> 11 \<and> (D + DayFromMonth m 0 + 12 + 4) mod 7 = (5::int)"
proof -
  consider "D mod 7 = 0" | "D mod 7 = 1" | "D mod 7 = 2" | "D mod 7 = 3" | "D mod 7 = 4"
    | "D mod 7 = 5" | "D mod 7 = 6"
    using mod7_cases [of D] by blast
  then show ?thesis
  proof cases
    case 1
    then have "(D + DayFromMonth 1 0 + 12 + 4) mod 7 = 5" unfolding DayFromMonth_def by simp presburger
    then show ?thesis by (intro exI [of _ 1]) simp
  next
    case 2
    then have "(D + DayFromMonth 7 0 + 12 + 4) mod 7 = 5" unfolding DayFromMonth_def by simp presburger
    then show ?thesis by (intro exI [of _ 7]) simp
  next
    case 3
    then have "(D + DayFromMonth 4 0 + 12 + 4) mod 7 = 5" unfolding DayFromMonth_def by simp presburger
    then show ?thesis by (intro exI [of _ 4]) simp
  next
    case 4
    then have "(D + DayFromMonth 0 0 + 12 + 4) mod 7 = 5" unfolding DayFromMonth_def by simp presburger
    then show ?thesis by (intro exI [of _ 0]) simp
  next
    case 5
    then have "(D + DayFromMonth 3 0 + 12 + 4) mod 7 = 5" unfolding DayFromMonth_def by simp presburger
    then show ?thesis by (intro exI [of _ 3]) simp
  next
    case 6
    then have "(D + DayFromMonth 8 0 + 12 + 4) mod 7 = 5" unfolding DayFromMonth_def by simp presburger
    then show ?thesis by (intro exI [of _ 8]) simp
  next
    case 7
    then have "(D + DayFromMonth 5 0 + 12 + 4) mod 7 = 5" unfolding DayFromMonth_def by simp presburger
    then show ?thesis by (intro exI [of _ 5]) simp
  qed
qed

lemma friday_13th_leap:
  "\<exists>m. 0 \<le> m \<and> m \<le> 11 \<and> (D + DayFromMonth m 1 + 12 + 4) mod 7 = (5::int)"
proof -
  consider "D mod 7 = 0" | "D mod 7 = 1" | "D mod 7 = 2" | "D mod 7 = 3" | "D mod 7 = 4"
    | "D mod 7 = 5" | "D mod 7 = 6"
    using mod7_cases [of D] by blast
  then show ?thesis
  proof cases
    case 1
    then have "(D + DayFromMonth 1 1 + 12 + 4) mod 7 = 5" unfolding DayFromMonth_def by simp presburger
    then show ?thesis by (intro exI [of _ 1]) simp
  next
    case 2
    then have "(D + DayFromMonth 4 1 + 12 + 4) mod 7 = 5" unfolding DayFromMonth_def by simp presburger
    then show ?thesis by (intro exI [of _ 4]) simp
  next
    case 3
    then have "(D + DayFromMonth 9 1 + 12 + 4) mod 7 = 5" unfolding DayFromMonth_def by simp presburger
    then show ?thesis by (intro exI [of _ 9]) simp
  next
    case 4
    then have "(D + DayFromMonth 0 1 + 12 + 4) mod 7 = 5" unfolding DayFromMonth_def by simp presburger
    then show ?thesis by (intro exI [of _ 0]) simp
  next
    case 5
    then have "(D + DayFromMonth 8 1 + 12 + 4) mod 7 = 5" unfolding DayFromMonth_def by simp presburger
    then show ?thesis by (intro exI [of _ 8]) simp
  next
    case 6
    then have "(D + DayFromMonth 5 1 + 12 + 4) mod 7 = 5" unfolding DayFromMonth_def by simp presburger
    then show ?thesis by (intro exI [of _ 5]) simp
  next
    case 7
    then have "(D + DayFromMonth 2 1 + 12 + 4) mod 7 = 5" unfolding DayFromMonth_def by simp presburger
    then show ?thesis by (intro exI [of _ 2]) simp
  qed
qed

lemma friday_13th_exists:
  "\<exists>m. 0 \<le> m \<and> m \<le> 11 \<and> (MakeDay y m 13 + 4) mod 7 = 5"
proof (cases "DaysInYear y = 366")
  case True
  obtain m where "0 \<le> m" "m \<le> 11" "(DayFromYear y + DayFromMonth m 1 + 12 + 4) mod 7 = 5"
    using friday_13th_leap [of "DayFromYear y"] by blast
  then show ?thesis using True by (intro exI [of _ m]) (simp add: MakeDay_month)
next
  case False
  obtain m where "0 \<le> m" "m \<le> 11" "(DayFromYear y + DayFromMonth m 0 + 12 + 4) mod 7 = 5"
    using friday_13th_common [of "DayFromYear y"] by blast
  then show ?thesis using False by (intro exI [of _ m]) (simp add: MakeDay_month)
qed

text \<open>Dates built by the local-time constructor, read back in local time.\<close>

lemma LocalTime_new_Date_value:
  "LocalTime tz (new_Date_value tz y m d) = Date_UTC_value y m d"
  by (simp add: new_Date_value_def Date_UTC_value_def LocalTime_UTC)

lemma getFullYear_new_Date_value:
  "getFullYear tz (new_Date_value tz y m d) = YearFromDay (MakeDay (MakeFullYear y) m d)"
  by (simp add: getFullYear_def YearFromTime_def Day_new_Date_value)

lemma MakeDay_jan_1: "MakeDay y 0 1 = DayFromYear y"
  by (simp add: MakeDay_def DayFromMonth_def)

lemma new_Date_value_jan_1: "new_Date_value tz y 0 1 = DayFromYear (MakeFullYear y) * msPerDay - tz"
  by (simp add: new_Date_value_def UTC_def MakeDate_def MakeTime_def MakeDay_jan_1)

lemma MakeFullYear_idem: "MakeFullYear (MakeFullYear y) = MakeFullYear y"
  by (simp add: MakeFullYear_def)

lemma getFullYear_jan_1: "getFullYear tz (new_Date_value tz y 0 1) = MakeFullYear y"
  by (simp add: getFullYear_new_Date_value MakeDay_jan_1 YearFromDay_DayFromYear)

section \<open>The examples of the doc comments\<close>

text \<open>
  The model gives the results that the doc comments of the source list as examples
  (with the local-time examples read in UTC).
\<close>

lemma example_getTime:
  "getTime 0 (Date_UTC_value 2023 5 1 + MakeTime 8 20 55 0) = ''08:20:55''
   \<and> getTime 0 (Date_UTC_value 2015 10 20 + MakeTime 23 15 1 0) = ''23:15:01''"
  by code_simp

lemma example_getNextFriday:
  "Option.bind (Date_parse ''2024-02-03T00:00:00.000Z'') getNextFriday
     = Date_parse ''2024-02-09T00:00:00.000Z''
   \<and> Option.bind (Date_parse ''2024-02-13T00:00:00.000Z'') getNextFriday
     = Date_parse ''2024-02-16T00:00:00.000Z''
   \<and> Option.bind (Date_parse ''2024-02-16T00:00:00.000Z'') getNextFriday
     = Date_parse ''2024-02-23T00:00:00.000Z''
   \<and> Date_parse ''2024-02-23T00:00:00.000Z'' = Some 1708646400000"
  by code_simp

lemma example_getCountDaysInMonth:
  "getCountDaysInMonth 1 2024 = Some 31 \<and> getCountDaysInMonth 2 2024 = Some 29"
  by code_simp

lemma example_formatDate:
  "map_option formatDate (Date_parse ''2024-02-01T15:00:00.000Z'') = Some ''2/1/2024, 3:00:00 PM''
   \<and> map_option formatDate (Date_parse ''1999-01-05T02:20:00.000Z'') = Some ''1/5/1999, 2:20:00 AM''
   \<and> map_option formatDate (Date_parse ''2010-12-15T22:59:00.000Z'')
       = Some ''12/15/2010, 10:59:00 PM''"
  by code_simp

lemma example_getNextFridayThe13th:
  "getNextFridayThe13th 0 (new_Date_value 0 2024 0 13) = Some (new_Date_value 0 2024 8 13)
   \<and> getNextFridayThe13th 0 (new_Date_value 0 2023 1 1) = Some (new_Date_value 0 2023 9 13)"
  by code_simp

lemma example_getWorkSchedule:
  "getWorkSchedule 0 \<lparr>start = ''01-01-2024'', endp = ''15-01-2024''\<rparr> 1 3
     = Some [''01-01-2024'', ''05-01-2024'', ''09-01-2024'', ''13-01-2024'']
   \<and> getWorkSchedule 0 \<lparr>start = ''01-01-2024'', endp = ''10-01-2024''\<rparr> 1 1
     = Some [''01-01-2024'', ''03-01-2024'', ''05-01-2024'', ''07-01-2024'', ''09-01-2024'']"
  by code_simp

lemma example_isLeapYear:
  "isLeapYear 0 (new_Date_value 0 2024 2 1) \<and> \<not> isLeapYear 0 (new_Date_value 0 2022 2 1)
   \<and> isLeapYear 0 (new_Date_value 0 2020 2 1)"
  by code_simp

lemma example_getCountDaysOnPeriod:
  "Date_parse ''2024-02-01T00:00:00.000Z'' = Some 1706745600000
   \<and> Date_parse ''2024-02-02T00:00:00.000Z'' = Some 1706832000000
   \<and> Date_parse ''2024-02-12T00:00:00.000Z'' = Some 1707696000000
   \<and> getCountDaysOnPeriod 1706745600000 1706832000000 = 2
   \<and> getCountDaysOnPeriod 1706745600000 1707696000000 = 12"
proof -
  have "Date_parse ''2024-02-01T00:00:00.000Z'' = Some 1706745600000
   \<and> Date_parse ''2024-02-02T00:00:00.000Z'' = Some 1706832000000
   \<and> Date_parse ''2024-02-12T00:00:00.000Z'' = Some 1707696000000" by code_simp
  then show ?thesis by (simp add: getCountDaysOnPeriod_def)
qed

lemma getWeekNumberByDate_eval:
  "getFullYear tz t = y \<Longrightarrow> new_Date tz y 0 1 = Some j \<Longrightarrow>
     getWeekNumberByDate tz t = Some \<lceil>(of_int (t - j) / 86400000 + 1) / (7::rat)\<rceil>"
  by (simp add: getWeekNumberByDate_def getCountDaysOnPeriod_def Let_def)

lemma example_getWeekNumberByDate:
  "getWeekNumberByDate 0 (new_Date_value 0 2024 0 3) = Some 1
   \<and> getWeekNumberByDate 0 (new_Date_value 0 2024 0 31) = Some 5
   \<and> getWeekNumberByDate 0 (new_Date_value 0 2024 1 23) = Some 8"
proof -
  have y: "getFullYear 0 (new_Date_value 0 2024 0 3) = 2024"
    "getFullYear 0 (new_Date_value 0 2024 0 31) = 2024"
    "getFullYear 0 (new_Date_value 0 2024 1 23) = 2024"
    by code_simp+
  have j: "new_Date 0 2024 0 1 = Some 1704067200000" by code_simp
  have d: "new_Date_value 0 2024 0 3 = 1704240000000"
    "new_Date_value 0 2024 0 31 = 1706659200000" "new_Date_value 0 2024 1 23 = 1708646400000"
    by code_simp+
  show ?thesis
    unfolding getWeekNumberByDate_eval [OF y(1) j] getWeekNumberByDate_eval [OF y(2) j]
      getWeekNumberByDate_eval [OF y(3) j]
    unfolding d by (simp add: ceiling_eq_iff)
qed

section \<open>The claims\<close>

subsection \<open>getCountDaysInMonth and isLeapYear\<close>

lemma js_rem_4: "js_rem y 4 = 0 \<longleftrightarrow> y mod 4 = 0"
proof -
  have "js_rem y 4 = 0 \<longleftrightarrow> \<bar>y\<bar> mod 4 = 0"
    by (auto simp: js_rem_def sgn_if)
  also have "\<dots> \<longleftrightarrow> 4 dvd \<bar>y\<bar>" by (simp add: dvd_eq_mod_eq_0)
  also have "\<dots> \<longleftrightarrow> 4 dvd y" by simp
  also have "\<dots> \<longleftrightarrow> y mod 4 = 0" by (simp add: dvd_eq_mod_eq_0)
  finally show ?thesis .
qed

lemma month_cases:
  "1 \<le> (m::int) \<Longrightarrow> m \<le> 12 \<Longrightarrow>
     m = 1 \<or> m = 2 \<or> m = 3 \<or> m = 4 \<or> m = 5 \<or> m = 6 \<or> m = 7 \<or> m = 8 \<or> m = 9
       \<or> m = 10 \<or> m = 11 \<or> m = 12"
  by arith

text \<open>
  Claim C10. For every month from 1 to 12 and every year, \<^verbatim>\<open>getCountDaysInMonth\<close>
  returns a defined number, one of 28, 29, 30 and 31. For a month below 1 or above 12
  (0 and 13 among them) the index \<^verbatim>\<open>month - 1\<close> is outside the table of twelve
  entries and the result is \<^verbatim>\<open>undefined\<close>.
\<close>

theorem getCountDaysInMonth_defined:
  "(1 \<le> m \<and> m \<le> 12 \<longrightarrow>
      (\<exists>n. getCountDaysInMonth m y = Some n \<and> n \<in> {28, 29, 30, 31}))
   \<and> (m < 1 \<or> 12 < m \<longrightarrow> getCountDaysInMonth m y = None)"
proof (intro conjI impI)
  assume "1 \<le> m \<and> m \<le> 12"
  then have "m = 1 \<or> m = 2 \<or> m = 3 \<or> m = 4 \<or> m = 5 \<or> m = 6
      \<or> m = 7 \<or> m = 8 \<or> m = 9 \<or> m = 10 \<or> m = 11 \<or> m = 12"
    using month_cases by blast
  then show "\<exists>n. getCountDaysInMonth m y = Some n \<and> n \<in> {28, 29, 30, 31}"
    by (elim disjE) (simp_all add: getCountDaysInMonth_def daysInMonth_def array_get_def)
next
  assume "m < 1 \<or> 12 < m"
  then show "getCountDaysInMonth m y = None"
    by (auto simp: getCountDaysInMonth_def daysInMonth_def array_get_def)
qed

theorem getCountDaysInMonth_defined_witness:
  "(1::int) \<le> 4 \<and> (4::int) \<le> 12 \<and> getCountDaysInMonth 4 2023 = Some 30
   \<and> 12 < (13::int) \<and> getCountDaysInMonth 13 2023 = None
   \<and> (0::int) < 1 \<and> getCountDaysInMonth 0 2023 = None"
  using getCountDaysInMonth_defined [of 4 2023] getCountDaysInMonth_defined [of 13 2023]
    getCountDaysInMonth_defined [of 0 2023]
  by (simp add: getCountDaysInMonth_def daysInMonth_def array_get_def)

text \<open>
  Claim C6. \<^verbatim>\<open>isLeapYear\<close> is true exactly when the year of the date is divisible
  by 4, \<^verbatim>\<open>getCountDaysInMonth(2, y)\<close> is 29 exactly when \<open>y\<close> is divisible by 4,
  and the two agree on every date; there is no exception for centuries: 1900 counts as
  a leap year in both.
\<close>

theorem leap_year_rule:
  "(isLeapYear tz t \<longleftrightarrow> js_rem (getFullYear tz t) 4 = 0)
   \<and> (isLeapYear tz t \<longleftrightarrow> getFullYear tz t mod 4 = 0)
   \<and> (getCountDaysInMonth 2 y = Some 29 \<longleftrightarrow> js_rem y 4 = 0)
   \<and> (getCountDaysInMonth 2 y = Some 29 \<longleftrightarrow> y mod 4 = 0)
   \<and> (isLeapYear tz t \<longleftrightarrow> getCountDaysInMonth 2 (getFullYear tz t) = Some 29)
   \<and> getCountDaysInMonth 2 1900 = Some 29
   \<and> isLeapYear tz (new_Date_value tz 1900 0 1)"
proof -
  have a: "isLeapYear tz t \<longleftrightarrow> js_rem (getFullYear tz t) 4 = 0"
    by (simp add: isLeapYear_def)
  have b: "getCountDaysInMonth 2 z = Some 29 \<longleftrightarrow> js_rem z 4 = 0" for z
    by (simp add: getCountDaysInMonth_def daysInMonth_def array_get_def)
  have c: "getCountDaysInMonth 2 1900 = Some 29"
    unfolding b js_rem_4 by simp
  have d: "isLeapYear tz (new_Date_value tz 1900 0 1)"
    by (simp add: isLeapYear_def getFullYear_jan_1 MakeFullYear_def js_rem_4)
  show ?thesis using a b c d js_rem_4 by simp
qed

subsection \<open>getNextFriday\<close>

lemma Day_add_days: "Day (t + 86400000 * k) = Day t + k"
  by (simp add: Day_def msPerDay_def)

lemma TimeWithinDay_add_days: "TimeWithinDay (t + 86400000 * k) = TimeWithinDay t"
  by (simp add: TimeWithinDay_def msPerDay_def)

lemma WeekDay_range: "0 \<le> WeekDay t \<and> WeekDay t < 7"
  by (simp add: WeekDay_def)

lemma Day_bounds: "86400000 * Day t \<le> t \<and> t < 86400000 * Day t + 86400000"
  unfolding Day_def msPerDay_def using fdiv_lower [of 86400000 t] fdiv_upper [of 86400000 t]
  by simp

text \<open>
  The time value that \<^verbatim>\<open>getNextFriday\<close> computes, before it is made a Date: a Friday
  in UTC, one to seven days after the input, at the same time of day.
\<close>

lemma next_friday_value:
  fixes t :: int
  defines "k \<equiv> (if WeekDay t < 5 then 5 - WeekDay t else 7 - WeekDay t + 5)"
  shows "getNextFriday t = TimeClip (t + 86400000 * k)"
    and "1 \<le> k" and "k \<le> 7"
    and "(Day t + k + 4) mod 7 = 5"
    and "WeekDay t = 5 \<Longrightarrow> k = 7"
proof -
  have w: "0 \<le> WeekDay t" "WeekDay t < 7" using WeekDay_range [of t] by simp_all
  show "getNextFriday t = TimeClip (t + 86400000 * k)"
    by (simp add: getNextFriday_def getUTCDay_def Let_def k_def)
  show "1 \<le> k" "k \<le> 7" using w by (auto simp: k_def)
  show "WeekDay t = 5 \<Longrightarrow> k = 7" by (simp add: k_def)
  have "Day t + k + 4 = (Day t + 4) + k" by simp
  then have "(Day t + k + 4) mod 7 = ((Day t + 4) mod 7 + k) mod 7"
    by (simp only: mod_add_left_eq)
  also have "\<dots> = (WeekDay t + k) mod 7" by (simp add: WeekDay_def)
  also have "\<dots> = 5" using w by (auto simp: k_def)
  finally show "(Day t + k + 4) mod 7 = 5" .
qed

lemma friday_gap: "(a + 4) mod 7 = 5 \<Longrightarrow> (b + 4) mod 7 = (5::int) \<Longrightarrow> b - 7 < a \<Longrightarrow> b \<le> a"
  by presburger

text \<open>
  Claim C4, as stated, fails. The last time value of a Date, 8640000000000000, is a
  Saturday; the Friday six days later is beyond the range of a Date, and
  \<^verbatim>\<open>new Date(newDate)\<close> is the Invalid Date.
\<close>

theorem getNextFriday_end_of_range:
  "TimeClip 8640000000000000 = Some 8640000000000000
   \<and> getUTCDay 8640000000000000 = 6
   \<and> getNextFriday 8640000000000000 = None"
  by code_simp

text \<open>
  Claim C4, amended. For every input date before 8639999913600000 (the midnight that
  begins Friday 12 September 275760, the last whole day of the range),
  \<^verbatim>\<open>getNextFriday\<close> returns a date strictly after its input, at most seven days
  later, that is a Friday in UTC and has the time of day of the input; when the input is
  a Friday, the result is exactly seven days later. For every input date from that
  midnight on, the result is the Invalid Date.
\<close>

theorem getNextFriday_next:
  "\<bar>currentDate\<bar> \<le> 8640000000000000 \<Longrightarrow>
     (currentDate < 8639999913600000 \<longrightarrow>
        (\<exists>r. getNextFriday currentDate = Some r
           \<and> currentDate < r
           \<and> r \<le> currentDate + 7 * msPerDay
           \<and> getUTCDay r = 5
           \<and> TimeWithinDay r = TimeWithinDay currentDate
           \<and> (getUTCDay currentDate = 5 \<longrightarrow> r = currentDate + 7 * msPerDay)))
     \<and> (8639999913600000 \<le> currentDate \<longrightarrow> getNextFriday currentDate = None)"
proof -
  assume v: "\<bar>currentDate\<bar> \<le> 8640000000000000"
  define k where "k = (if WeekDay currentDate < 5 then 5 - WeekDay currentDate
    else 7 - WeekDay currentDate + 5)"
  define r where "r = currentDate + 86400000 * k"
  have g: "getNextFriday currentDate = TimeClip r"
    and k: "1 \<le> k" "k \<le> 7"
    and f: "(Day currentDate + k + 4) mod 7 = 5"
    and s: "WeekDay currentDate = 5 \<Longrightarrow> k = 7"
    using next_friday_value [of currentDate] by (simp_all add: k_def r_def)
  have dr: "Day r = Day currentDate + k" by (simp add: r_def Day_add_days)
  have b: "86400000 * Day currentDate \<le> currentDate"
    "currentDate < 86400000 * Day currentDate + 86400000"
    using Day_bounds [of currentDate] by simp_all
  have br: "r < 86400000 * (Day currentDate + k) + 86400000"
    using b(2) by (simp add: r_def algebra_simps)
  have last: "(99999999 + 4) mod 7 = (5::int)" by simp
  show ?thesis
  proof (intro conjI impI)
    assume lt: "currentDate < 8639999913600000"
    then have "86400000 * Day currentDate < 86400000 * 99999999" using b(1) by simp
    then have "Day currentDate < 99999999" by simp
    then have "Day currentDate + k - 7 < 99999999" using k by simp
    then have "Day currentDate + k \<le> 99999999" using friday_gap [OF last f] by simp
    then have "86400000 * (Day currentDate + k) + 86400000 \<le> 86400000 * 99999999 + 86400000"
      by simp
    then have "r < 8640000000000000" using br by simp
    moreover have "currentDate < r" using k by (simp add: r_def)
    ultimately have "\<bar>r\<bar> \<le> 8640000000000000" using v by simp
    then have "getNextFriday currentDate = Some r" by (simp add: g TimeClip_def)
    moreover have "currentDate < r" using k by (simp add: r_def)
    moreover have "r \<le> currentDate + 7 * msPerDay" using k by (simp add: r_def msPerDay_def)
    moreover have "getUTCDay r = 5" using f by (simp add: getUTCDay_def WeekDay_def dr)
    moreover have "TimeWithinDay r = TimeWithinDay currentDate"
      by (simp add: r_def TimeWithinDay_add_days)
    moreover have "getUTCDay currentDate = 5 \<longrightarrow> r = currentDate + 7 * msPerDay"
      using s by (simp add: getUTCDay_def r_def msPerDay_def)
    ultimately show "\<exists>r. getNextFriday currentDate = Some r
           \<and> currentDate < r
           \<and> r \<le> currentDate + 7 * msPerDay
           \<and> getUTCDay r = 5
           \<and> TimeWithinDay r = TimeWithinDay currentDate
           \<and> (getUTCDay currentDate = 5 \<longrightarrow> r = currentDate + 7 * msPerDay)"
      by blast
  next
    assume ge: "8639999913600000 \<le> currentDate"
    then have "86400000 * 99999999 < 86400000 * Day currentDate + 86400000" using b(2) by simp
    then have lo: "99999999 \<le> Day currentDate" by simp
    have "86400000 * Day currentDate \<le> 86400000 * 100000000" using b(1) v by simp
    then have hi: "Day currentDate \<le> 100000000" by simp
    have "8640000000000000 < r"
    proof (cases "Day currentDate = 99999999")
      case True
      then have "WeekDay currentDate = 5" by (simp add: WeekDay_def)
      then have "k = 7" by (rule s)
      then show ?thesis using ge by (simp add: r_def)
    next
      case False
      then have d: "Day currentDate = 100000000" using lo hi by simp
      then have "8640000000000000 \<le> currentDate" using b(1) by simp
      then show ?thesis using k by (simp add: r_def)
    qed
    then show "getNextFriday currentDate = None" by (simp add: g TimeClip_def)
  qed
qed

theorem getNextFriday_next_witness:
  "\<bar>1708041600000\<bar> \<le> (8640000000000000::int)
   \<and> (1708041600000::int) < 8639999913600000
   \<and> getUTCDay 1708041600000 = 5
   \<and> getNextFriday 1708041600000 = Some (1708041600000 + 7 * msPerDay)
   \<and> \<bar>8640000000000000\<bar> \<le> (8640000000000000::int)
   \<and> (8639999913600000::int) \<le> 8640000000000000
   \<and> getNextFriday 8640000000000000 = None"
proof -
  have h: "getUTCDay 1708041600000 = 5"
    by (simp add: getUTCDay_def WeekDay_def Day_def msPerDay_def)
  have a: "\<bar>1708041600000\<bar> \<le> (8640000000000000::int)" by simp
  have b: "\<bar>8640000000000000\<bar> \<le> (8640000000000000::int)" by simp
  show ?thesis
    using h getNextFriday_next [OF a] getNextFriday_next [OF b] by auto
qed

subsection \<open>getCountDaysOnPeriod\<close>

text \<open>
  Claim C7. \<^verbatim>\<open>getCountDaysOnPeriod\<close> is the difference of the two dates in
  milliseconds, divided by 86400000, plus 1: a period that ends where it starts has
  1 day, and one that ends \<open>n\<close> whole days after its start has \<open>n + 1\<close>.
\<close>

theorem getCountDaysOnPeriod_inclusive:
  "getCountDaysOnPeriod dateStart dateEnd = of_int (dateEnd - dateStart) / 86400000 + 1
   \<and> getCountDaysOnPeriod dateStart dateStart = 1
   \<and> getCountDaysOnPeriod dateStart (dateStart + n * msPerDay) = of_int n + 1"
  by (simp add: getCountDaysOnPeriod_def Let_def msPerDay_def)

subsection \<open>getTime and formatDate\<close>

text \<open>The decimal text of a positive number does not begin with a zero.\<close>

lemma digit_char_nonzero: "0 < k \<Longrightarrow> k < 10 \<Longrightarrow> digit_char k \<noteq> CHR ''0''"
proof -
  assume "0 < k" "k < 10"
  then have "k \<in> {1, 2, 3, 4, 5, 6, 7, 8, 9}" by auto
  then show ?thesis by (auto simp: digit_char_def)
qed

lemma digits10_nonempty: "digits10 n \<noteq> []"
  by (subst digits10.simps) simp

lemma hd_digits10: "0 < n \<Longrightarrow> hd (digits10 n) \<noteq> CHR ''0''"
proof (induction n rule: digits10.induct)
  case (1 n)
  show ?case
  proof (cases "n < 10")
    case True
    then show ?thesis using 1(2) by (subst digits10.simps) (simp add: digit_char_nonzero)
  next
    case False
    then have "0 < n div 10" by simp
    then have "hd (digits10 (n div 10)) \<noteq> CHR ''0''" using False by (intro 1(1)) simp_all
    then show ?thesis using False by (subst digits10.simps) (simp add: digits10_nonempty)
  qed
qed

lemma pad_below_9_leading_zero: "hd (pad_below_9 v) = CHR ''0'' \<longleftrightarrow> v < 9"
proof (cases "v < 9")
  case True
  then show ?thesis by (simp add: pad_below_9_def)
next
  case False
  then have "0 < nat v" by simp
  then have "hd (digits10 (nat v)) \<noteq> CHR ''0''" by (rule hd_digits10)
  then show ?thesis using False by (simp add: pad_below_9_def ToString_def)
qed

text \<open>
  Claim C5. The hour, minute and second of \<^verbatim>\<open>getTime\<close> and the minute and second of
  \<^verbatim>\<open>formatDate\<close> are written by the rule \<open>pad_below_9\<close>: a leading zero exactly
  when the value is less than 9. So 9 is written \<^verbatim>\<open>9\<close>, and 0 to 8 are written
  \<^verbatim>\<open>00\<close> to \<^verbatim>\<open>08\<close>; the text of a value begins with a zero only when the
  value is less than 9.
\<close>

theorem zero_padding_below_9:
  "getTime tz t =
     pad_below_9 (getHours tz t) @ '':'' @ pad_below_9 (getMinutes tz t) @ '':''
       @ pad_below_9 (getSeconds tz t)
   \<and> formatDate t =
       ToString (getUTCMonth t + 1) @ ''/'' @ ToString (getUTCDate t) @ ''/''
         @ ToString (getUTCFullYear t) @ '', ''
         @ ToString (if getUTCHours t > 12 then getUTCHours t - 12 else getUTCHours t) @ '':''
         @ pad_below_9 (getUTCMinutes t) @ '':'' @ pad_below_9 (getUTCSeconds t) @ '' ''
         @ (if getUTCHours t \<ge> 12 then ''PM'' else ''AM'')
   \<and> (pad_below_9 v = CHR ''0'' # ToString v \<longleftrightarrow> v < 9)
   \<and> (hd (pad_below_9 v) = CHR ''0'' \<longleftrightarrow> v < 9)
   \<and> pad_below_9 9 = ''9''
   \<and> map pad_below_9 [0, 1, 2, 3, 4, 5, 6, 7, 8]
       = [''00'', ''01'', ''02'', ''03'', ''04'', ''05'', ''06'', ''07'', ''08'']
   \<and> getTime 0 (Date_UTC_value 2023 5 1 + MakeTime 9 9 9 0) = ''9:9:9''
   \<and> getTime 0 (Date_UTC_value 2023 5 1 + MakeTime 8 8 8 0) = ''08:08:08''
   \<and> formatDate (Date_UTC_value 2023 5 1 + MakeTime 15 9 9 0) = ''6/1/2023, 3:9:9 PM''
   \<and> formatDate (Date_UTC_value 2023 5 1 + MakeTime 15 8 8 0) = ''6/1/2023, 3:08:08 PM''"
proof -
  have a: "getTime tz t =
     pad_below_9 (getHours tz t) @ '':'' @ pad_below_9 (getMinutes tz t) @ '':''
       @ pad_below_9 (getSeconds tz t)"
    by (simp add: getTime_def pad_below_9_def Let_def)
  have b: "formatDate t =
       ToString (getUTCMonth t + 1) @ ''/'' @ ToString (getUTCDate t) @ ''/''
         @ ToString (getUTCFullYear t) @ '', ''
         @ ToString (if getUTCHours t > 12 then getUTCHours t - 12 else getUTCHours t) @ '':''
         @ pad_below_9 (getUTCMinutes t) @ '':'' @ pad_below_9 (getUTCSeconds t) @ '' ''
         @ (if getUTCHours t \<ge> 12 then ''PM'' else ''AM'')"
    by (simp add: formatDate_def pad_below_9_def Let_def)
  have c: "pad_below_9 v = CHR ''0'' # ToString v \<longleftrightarrow> v < 9"
    by (simp add: pad_below_9_def)
  have d: "pad_below_9 9 = ''9''" by code_simp
  have e: "map pad_below_9 [0, 1, 2, 3, 4, 5, 6, 7, 8]
       = [''00'', ''01'', ''02'', ''03'', ''04'', ''05'', ''06'', ''07'', ''08'']"
    by code_simp
  have f: "getTime 0 (Date_UTC_value 2023 5 1 + MakeTime 9 9 9 0) = ''9:9:9''" by code_simp
  have g: "getTime 0 (Date_UTC_value 2023 5 1 + MakeTime 8 8 8 0) = ''08:08:08''" by code_simp
  have h: "formatDate (Date_UTC_value 2023 5 1 + MakeTime 15 9 9 0) = ''6/1/2023, 3:9:9 PM''"
    by code_simp
  have i: "formatDate (Date_UTC_value 2023 5 1 + MakeTime 15 8 8 0) = ''6/1/2023, 3:08:08 PM''"
    by code_simp
  show ?thesis using a b c d e f g h i pad_below_9_leading_zero by blast
qed

text \<open>
  Claim C2. At 00:30 UTC the hour field is 0, and \<^verbatim>\<open>formatDate\<close> writes the hour
  as \<^verbatim>\<open>0\<close>, not as 12: neither test on \<^verbatim>\<open>hours\<close> changes the value 0.
\<close>

theorem formatDate_hour_0:
  "Date_parse ''2024-02-01T00:30:00.000Z'' = Some 1706747400000
   \<and> getUTCHours 1706747400000 = 0
   \<and> formatDate 1706747400000 = ''2/1/2024, 0:30:00 AM''"
  by code_simp

subsection \<open>getNextFridayThe13th\<close>

lemma new_Date_value_eq: "new_Date_value tz y m d = Date_UTC_value y m d - tz"
  by (simp add: new_Date_value_def Date_UTC_value_def UTC_def)

text \<open>
  Claim C1. The search starts at the thirteenth of the month of the input, whatever the
  day of the input. For 20 January 2023, in every time zone, the result is
  13 January 2023: a Friday the 13th, but one before the input.
\<close>

theorem getNextFridayThe13th_past:
  "\<bar>tz\<bar> \<le> 86400000 \<Longrightarrow>
     new_Date tz 2023 0 20 = Some (new_Date_value tz 2023 0 20)
     \<and> getNextFridayThe13th tz (new_Date_value tz 2023 0 20) = Some (new_Date_value tz 2023 0 13)
     \<and> new_Date_value tz 2023 0 13 < new_Date_value tz 2023 0 20
     \<and> getDate tz (new_Date_value tz 2023 0 20) = 20
     \<and> getDate tz (new_Date_value tz 2023 0 13) = 13
     \<and> getDay tz (new_Date_value tz 2023 0 13) = 5"
proof -
  assume tz: "\<bar>tz\<bar> \<le> 86400000"
  have v: "Date_UTC_value 2023 0 13 = 1673568000000" "Date_UTC_value 2023 0 20 = 1674172800000"
    by code_simp+
  have c13: "new_Date tz 2023 0 13 = Some (new_Date_value tz 2023 0 13)"
    using tz by (simp add: new_Date_def TimeClip_def new_Date_value_eq v)
  have c20: "new_Date tz 2023 0 20 = Some (new_Date_value tz 2023 0 20)"
    using tz by (simp add: new_Date_def TimeClip_def new_Date_value_eq v)
  have i: "search_init tz (new_Date_value tz 2023 0 20) = \<lparr>year = 2023, month = 0, res = None\<rparr>"
    unfolding search_init_def getFullYear_def getMonth_def LocalTime_new_Date_value by code_simp
  have f: "getDay tz (new_Date_value tz 2023 0 13) = 5"
    unfolding getDay_def LocalTime_new_Date_value by code_simp
  have b: "search_body tz \<lparr>year = 2023, month = 0, res = None\<rparr>
      = \<lparr>year = 2023, month = 0, res = Some (new_Date_value tz 2023 0 13)\<rparr>"
    by (simp add: search_body_def c13 f)
  have w: "while_option (\<lambda>s. res s = None) (search_body tz) \<lparr>year = 2023, month = 0, res = None\<rparr>
      = Some \<lparr>year = 2023, month = 0, res = Some (new_Date_value tz 2023 0 13)\<rparr>"
    by (subst while_option_unfold, simp add: b, subst while_option_unfold, simp)
  have r: "getNextFridayThe13th tz (new_Date_value tz 2023 0 20) = Some (new_Date_value tz 2023 0 13)"
    by (simp add: getNextFridayThe13th_def i w)
  have l: "new_Date_value tz 2023 0 13 < new_Date_value tz 2023 0 20"
    by (simp add: new_Date_value_eq v)
  have d: "getDate tz (new_Date_value tz 2023 0 20) = 20"
    unfolding getDate_def LocalTime_new_Date_value by code_simp
  have e: "getDate tz (new_Date_value tz 2023 0 13) = 13"
    unfolding getDate_def LocalTime_new_Date_value by code_simp
  show ?thesis using c20 r l d e f by blast
qed

theorem getNextFridayThe13th_past_witness:
  "\<bar>10800000\<bar> \<le> (86400000::int)
   \<and> new_Date 10800000 2023 0 20 = Some 1674162000000
   \<and> getNextFridayThe13th 10800000 1674162000000 = Some 1673557200000
   \<and> (1673557200000::int) < 1674162000000"
proof -
  have h: "\<bar>10800000\<bar> \<le> (86400000::int)" by simp
  have v: "new_Date_value 10800000 2023 0 20 = 1674162000000"
    "new_Date_value 10800000 2023 0 13 = 1673557200000"
    by code_simp+
  show ?thesis using getNextFridayThe13th_past [OF h] unfolding v by simp
qed

lemma next_month_step:
  "map_option (getDay tz) (new_Date tz (year s) (month s) 13) \<noteq> Some 5 \<Longrightarrow> month s < 12 \<Longrightarrow>
     search_body tz s = s\<lparr>month := month s + 1\<rparr>"
  by (auto simp: search_body_def Let_def)

lemma next_year_step:
  "map_option (getDay tz) (new_Date tz (year s) (month s) 13) \<noteq> Some 5 \<Longrightarrow> \<not> month s < 12 \<Longrightarrow>
     search_body tz s = s\<lparr>month := 0, year := year s + 1\<rparr>"
  by (auto simp: search_body_def Let_def)

lemma MonthFromTime_range: "0 \<le> MonthFromTime t \<and> MonthFromTime t \<le> 11"
  by (simp add: MonthFromTime_def Let_def)

lemma search_init_month: "0 \<le> month (search_init tz t) \<and> month (search_init tz t) \<le> 11"
  using MonthFromTime_range by (simp add: search_init_def getMonth_def)

lemma search_body_month:
  "0 \<le> month s \<and> month s \<le> 12 \<Longrightarrow> 0 \<le> month (search_body tz s) \<and> month (search_body tz s) \<le> 12"
  by (simp add: search_body_def Let_def)

lemma search_month_bounds:
  "0 \<le> month ((search_body tz ^^ k) (search_init tz t))
   \<and> month ((search_body tz ^^ k) (search_init tz t)) \<le> 12"
proof (induction k)
  case 0
  then show ?case using search_init_month [of tz t] by simp
next
  case (Suc k)
  then show ?case using search_body_month by simp
qed

text \<open>
  As long as no thirteenth is a Friday, each run of the body adds 1 to the month index
  and changes nothing else, up to the index 12.
\<close>

lemma search_climb:
  "int n \<le> 12 - m0 \<Longrightarrow>
     (\<forall>j. 0 \<le> j \<and> j < int n \<longrightarrow>
        map_option (getDay tz) (new_Date tz y0 (m0 + j) 13) \<noteq> Some 5) \<Longrightarrow>
     (search_body tz ^^ n) \<lparr>year = y0, month = m0, res = None\<rparr>
       = \<lparr>year = y0, month = m0 + int n, res = None\<rparr>"
proof (induction n)
  case 0
  then show ?case by simp
next
  case (Suc n)
  have st: "(search_body tz ^^ n) \<lparr>year = y0, month = m0, res = None\<rparr>
      = \<lparr>year = y0, month = m0 + int n, res = None\<rparr>"
    using Suc.prems by (intro Suc.IH) auto
  have "0 \<le> int n \<and> int n < int (Suc n)" by simp
  then have nf: "map_option (getDay tz) (new_Date tz y0 (m0 + int n) 13) \<noteq> Some 5"
    using Suc.prems(2) by blast
  have lt: "m0 + int n < 12" using Suc.prems(1) by simp
  have "search_body tz \<lparr>year = y0, month = m0 + int n, res = None\<rparr>
      = \<lparr>year = y0, month = m0 + int n + 1, res = None\<rparr>"
    using nf lt by (auto simp: search_body_def Let_def)
  then show ?case using st by (simp add: algebra_simps)
qed

text \<open>
  Claim C9, as stated, fails. From 20 November 2023 the body runs for November and
  December, which raises \<open>month\<close> to 12; the third run tests
  \<^verbatim>\<open>new Date(2023, 12, 13)\<close>, a Saturday, finds \<^verbatim>\<open>month < 12\<close> false and takes the
  \<^verbatim>\<open>else\<close> branch, which leaves the year 2024 and the month 0. The search ends at
  13 September 2024.
\<close>

theorem search_else_reached:
  "new_Date 0 2023 10 20 = Some (new_Date_value 0 2023 10 20)
   \<and> res (search_init 0 (new_Date_value 0 2023 10 20)) = None
   \<and> res (search_body 0 (search_init 0 (new_Date_value 0 2023 10 20))) = None
   \<and> res (search_body 0 (search_body 0 (search_init 0 (new_Date_value 0 2023 10 20)))) = None
   \<and> month (search_body 0 (search_body 0 (search_init 0 (new_Date_value 0 2023 10 20)))) = 12
   \<and> takes_else 0 (search_body 0 (search_body 0 (search_init 0 (new_Date_value 0 2023 10 20))))
   \<and> search_body 0 (search_body 0 (search_body 0 (search_init 0 (new_Date_value 0 2023 10 20))))
       = \<lparr>year = 2024, month = 0, res = None\<rparr>
   \<and> getNextFridayThe13th 0 (new_Date_value 0 2023 10 20) = Some (new_Date_value 0 2024 8 13)"
  by code_simp

text \<open>
  Claim C9, amended. The \<^verbatim>\<open>else\<close> branch is reachable. For every input date the
  month index stays between 0 and 12 in every state of the loop. Where the thirteenth
  is not a Friday, an index below 12 (11 among them) is raised by 1, and at the index 12
  the \<^verbatim>\<open>else\<close> branch runs, setting the month to 0 and adding 1 to the year; the branch
  runs in no state of the loop with another index. For every input date with no Friday
  the 13th from its own month to December of its year, the loop reaches the index 12 in
  the year of the input.
\<close>

theorem search_month_wraps:
  "(\<forall>k. 0 \<le> month ((search_body tz ^^ k) (search_init tz t))
        \<and> month ((search_body tz ^^ k) (search_init tz t)) \<le> 12)
   \<and> (\<forall>s. map_option (getDay tz) (new_Date tz (year s) (month s) 13) \<noteq> Some 5 \<and> month s < 12
          \<longrightarrow> search_body tz s = s\<lparr>month := month s + 1\<rparr>)
   \<and> (\<forall>s. map_option (getDay tz) (new_Date tz (year s) (month s) 13) \<noteq> Some 5 \<and> month s = 12
          \<longrightarrow> takes_else tz s \<and> search_body tz s = s\<lparr>month := 0, year := year s + 1\<rparr>)
   \<and> (\<forall>k. takes_else tz ((search_body tz ^^ k) (search_init tz t))
          \<longrightarrow> month ((search_body tz ^^ k) (search_init tz t)) = 12)
   \<and> ((\<forall>j. 0 \<le> j \<and> j < 12 - getMonth tz t \<longrightarrow>
          map_option (getDay tz) (new_Date tz (getFullYear tz t) (getMonth tz t + j) 13) \<noteq> Some 5)
        \<longrightarrow> (search_body tz ^^ nat (12 - getMonth tz t)) (search_init tz t)
              = \<lparr>year = getFullYear tz t, month = 12, res = None\<rparr>)"
proof -
  have a: "\<forall>k. 0 \<le> month ((search_body tz ^^ k) (search_init tz t))
        \<and> month ((search_body tz ^^ k) (search_init tz t)) \<le> 12"
    using search_month_bounds by blast
  have b: "\<forall>s. map_option (getDay tz) (new_Date tz (year s) (month s) 13) \<noteq> Some 5 \<and> month s < 12
          \<longrightarrow> search_body tz s = s\<lparr>month := month s + 1\<rparr>"
    using next_month_step by blast
  have c: "\<forall>s. map_option (getDay tz) (new_Date tz (year s) (month s) 13) \<noteq> Some 5 \<and> month s = 12
          \<longrightarrow> takes_else tz s \<and> search_body tz s = s\<lparr>month := 0, year := year s + 1\<rparr>"
    by (simp add: takes_else_def next_year_step)
  have d: "\<forall>k. takes_else tz ((search_body tz ^^ k) (search_init tz t))
          \<longrightarrow> month ((search_body tz ^^ k) (search_init tz t)) = 12"
  proof (intro allI impI)
    fix k
    assume "takes_else tz ((search_body tz ^^ k) (search_init tz t))"
    then have "12 \<le> month ((search_body tz ^^ k) (search_init tz t))"
      by (simp add: takes_else_def)
    then show "month ((search_body tz ^^ k) (search_init tz t)) = 12"
      using search_month_bounds [where tz = tz and k = k and t = t] by simp
  qed
  have e: "(\<forall>j. 0 \<le> j \<and> j < 12 - getMonth tz t \<longrightarrow>
          map_option (getDay tz) (new_Date tz (getFullYear tz t) (getMonth tz t + j) 13) \<noteq> Some 5)
        \<longrightarrow> (search_body tz ^^ nat (12 - getMonth tz t)) (search_init tz t)
              = \<lparr>year = getFullYear tz t, month = 12, res = None\<rparr>"
  proof
    assume nf: "\<forall>j. 0 \<le> j \<and> j < 12 - getMonth tz t \<longrightarrow>
          map_option (getDay tz) (new_Date tz (getFullYear tz t) (getMonth tz t + j) 13) \<noteq> Some 5"
    have m: "getMonth tz t \<le> 11" using MonthFromTime_range by (simp add: getMonth_def)
    have "(search_body tz ^^ nat (12 - getMonth tz t))
        \<lparr>year = getFullYear tz t, month = getMonth tz t, res = None\<rparr>
      = \<lparr>year = getFullYear tz t, month = getMonth tz t + int (nat (12 - getMonth tz t)),
         res = None\<rparr>"
      using nf m by (intro search_climb) simp_all
    then show "(search_body tz ^^ nat (12 - getMonth tz t)) (search_init tz t)
              = \<lparr>year = getFullYear tz t, month = 12, res = None\<rparr>"
      using m by (simp add: search_init_def)
  qed
  show ?thesis using a b c d e by blast
qed

theorem search_month_wraps_witness:
  "getFullYear 0 (new_Date_value 0 2023 10 20) = 2023
   \<and> getMonth 0 (new_Date_value 0 2023 10 20) = 10
   \<and> map_option (getDay 0) (new_Date 0 2023 10 13) \<noteq> Some 5
   \<and> map_option (getDay 0) (new_Date 0 2023 11 13) \<noteq> Some 5
   \<and> map_option (getDay 0) (new_Date 0 2023 12 13) \<noteq> Some 5
   \<and> (search_body 0 ^^ 2) (search_init 0 (new_Date_value 0 2023 10 20))
       = \<lparr>year = 2023, month = 12, res = None\<rparr>
   \<and> takes_else 0 \<lparr>year = 2023, month = 12, res = None\<rparr>
   \<and> search_body 0 \<lparr>year = 2023, month = 12, res = None\<rparr>
       = \<lparr>year = 2024, month = 0, res = None\<rparr>"
proof -
  define T where "T = new_Date_value 0 2023 10 20"
  have y: "getFullYear 0 T = 2023" and m: "getMonth 0 T = 10"
    unfolding T_def by code_simp+
  have f0: "map_option (getDay 0) (new_Date 0 2023 10 13) \<noteq> Some 5" by code_simp
  have f1: "map_option (getDay 0) (new_Date 0 2023 11 13) \<noteq> Some 5" by code_simp
  have f2: "map_option (getDay 0) (new_Date 0 2023 12 13) \<noteq> Some 5" by code_simp
  have h: "\<forall>j. 0 \<le> j \<and> j < 12 - getMonth 0 T \<longrightarrow>
      map_option (getDay 0) (new_Date 0 (getFullYear 0 T) (getMonth 0 T + j) 13) \<noteq> Some 5"
  proof (intro allI impI)
    fix j :: int
    assume "0 \<le> j \<and> j < 12 - getMonth 0 T"
    then have "j = 0 \<or> j = 1" unfolding m by auto
    then show "map_option (getDay 0) (new_Date 0 (getFullYear 0 T) (getMonth 0 T + j) 13) \<noteq> Some 5"
      unfolding y m using f0 f1 by auto
  qed
  have r: "(search_body 0 ^^ nat (12 - getMonth 0 T)) (search_init 0 T)
      = \<lparr>year = getFullYear 0 T, month = 12, res = None\<rparr>"
    using search_month_wraps [of 0 T] h by blast
  have n: "nat (12 - getMonth 0 T) = 2" unfolding m by simp
  have r': "(search_body 0 ^^ 2) (search_init 0 T) = \<lparr>year = 2023, month = 12, res = None\<rparr>"
    using r unfolding n y .
  have s: "takes_else 0 \<lparr>year = 2023, month = 12, res = None\<rparr>
      \<and> search_body 0 \<lparr>year = 2023, month = 12, res = None\<rparr>
          = \<lparr>year = 2023, month = 12, res = None\<rparr>\<lparr>month := 0, year := 2023 + 1\<rparr>"
    using search_month_wraps [of 0 T] f2
    by (metis search.select_convs(1) search.select_convs(2))
  show ?thesis using y m f0 f1 f2 r' s unfolding T_def by simp
qed

text \<open>
  The search ends when the years of the input and the next are both within the range of
  a Date; at the end of the range it does not.
\<close>

lemma DayFromMonth_bounds:
  "0 \<le> m \<Longrightarrow> m \<le> 11 \<Longrightarrow> l = 0 \<or> l = 1 \<Longrightarrow> 0 \<le> DayFromMonth m l \<and> DayFromMonth m l \<le> 335"
  by (auto simp: DayFromMonth_def)

lemma MakeDay_13_bounds:
  assumes "0 \<le> m" "m \<le> 11"
  shows "DayFromYear y + 12 \<le> MakeDay y m 13" and "MakeDay y m 13 \<le> DayFromYear y + 347"
  using DayFromMonth_bounds [OF assms, of "if DaysInYear y = 366 then 1 else 0"]
  by (simp_all add: MakeDay_month [OF assms])

lemma new_Date_13_valid:
  assumes tz: "\<bar>tz\<bar> \<le> 86400000" and y: "- 271820 \<le> y" "y \<le> 275759"
    and m: "0 \<le> m" "m \<le> 11"
  shows "new_Date tz y m 13 = Some (new_Date_value tz y m 13)"
proof -
  define Y where "Y = MakeFullYear y"
  have Y: "- 271820 \<le> Y" "Y \<le> 275759" using y by (auto simp: Y_def MakeFullYear_def)
  have lo: "DayFromYear (- 271820) \<le> DayFromYear Y" using Y(1) by (rule DayFromYear_mono)
  have hi: "DayFromYear Y \<le> DayFromYear 275759" using Y(2) by (rule DayFromYear_mono)
  have c: "DayFromYear (- 271820) = - 99999744" "DayFromYear 275759 = 99999379"
    by (simp_all add: DayFromYear_def)
  have d: "- 99999732 \<le> MakeDay Y m 13" "MakeDay Y m 13 \<le> 99999726"
    using MakeDay_13_bounds [OF m, of Y] lo hi unfolding c by simp_all
  have v: "new_Date_value tz y m 13 = MakeDay Y m 13 * 86400000 - tz"
    by (simp add: new_Date_value_def UTC_def MakeDate_def MakeTime_def msPerDay_def Y_def)
  have "- 99999732 * 86400000 \<le> MakeDay Y m 13 * 86400000"
    "MakeDay Y m 13 * 86400000 \<le> 99999726 * 86400000"
    using d by simp_all
  then have "\<bar>new_Date_value tz y m 13\<bar> \<le> 8640000000000000"
    unfolding v using tz by simp
  then show ?thesis by (simp add: new_Date_def TimeClip_def)
qed

lemma found_later:
  "\<exists>k. res ((search_body tz ^^ k) (search_body tz s)) \<noteq> None \<Longrightarrow>
     \<exists>k. res ((search_body tz ^^ k) s) \<noteq> None"
proof -
  assume "\<exists>k. res ((search_body tz ^^ k) (search_body tz s)) \<noteq> None"
  then obtain k where "res ((search_body tz ^^ k) (search_body tz s)) \<noteq> None" ..
  then have "res ((search_body tz ^^ Suc k) s) \<noteq> None" by (simp add: funpow_swap1)
  then show ?thesis ..
qed

lemma found_now:
  "map_option (getDay tz) (new_Date tz (year s) (month s) 13) = Some 5 \<Longrightarrow>
     \<exists>k. res ((search_body tz ^^ k) s) \<noteq> None"
proof -
  assume "map_option (getDay tz) (new_Date tz (year s) (month s) 13) = Some 5"
  then have "res ((search_body tz ^^ 1) s) \<noteq> None" by (auto simp: search_body_def Let_def)
  then show ?thesis ..
qed

lemma found_in_year:
  "map_option (getDay tz) (new_Date tz (year s) m' 13) = Some 5 \<Longrightarrow> month s \<le> m' \<Longrightarrow>
     m' \<le> 11 \<Longrightarrow> n = nat (m' - month s) \<Longrightarrow> \<exists>k. res ((search_body tz ^^ k) s) \<noteq> None"
proof (induction n arbitrary: s)
  case 0
  then have "month s = m'" by simp
  then show ?case using 0 found_now by simp
next
  case (Suc n)
  show ?case
  proof (cases "map_option (getDay tz) (new_Date tz (year s) (month s) 13) = Some 5")
    case True
    then show ?thesis by (rule found_now)
  next
    case False
    have lt: "month s < 12" using Suc.prems by simp
    have b: "search_body tz s = s\<lparr>month := month s + 1\<rparr>"
      using False lt by (rule next_month_step)
    have "\<exists>k. res ((search_body tz ^^ k) (s\<lparr>month := month s + 1\<rparr>)) \<noteq> None"
      using Suc.prems by (intro Suc.IH) auto
    then show ?thesis using b found_later [of tz s] by simp
  qed
qed

lemma found_from:
  "\<bar>tz\<bar> \<le> 86400000 \<Longrightarrow> - 271821 \<le> year s \<Longrightarrow> year s \<le> 275758 \<Longrightarrow> month s \<le> 12 \<Longrightarrow>
     n = nat (12 - month s) \<Longrightarrow> \<exists>k. res ((search_body tz ^^ k) s) \<noteq> None"
proof (induction n arbitrary: s)
  case 0
  then have m: "month s = 12" by simp
  show ?case
  proof (cases "map_option (getDay tz) (new_Date tz (year s) (month s) 13) = Some 5")
    case True
    then show ?thesis by (rule found_now)
  next
    case False
    have b: "search_body tz s = s\<lparr>month := 0, year := year s + 1\<rparr>"
      using False m by (intro next_year_step) simp_all
    obtain m' where m': "0 \<le> m'" "m' \<le> 11"
        "(MakeDay (MakeFullYear (year s + 1)) m' 13 + 4) mod 7 = 5"
      using friday_13th_exists [of "MakeFullYear (year s + 1)"] by blast
    have "new_Date tz (year s + 1) m' 13 = Some (new_Date_value tz (year s + 1) m' 13)"
      using 0 m' by (intro new_Date_13_valid) simp_all
    then have "map_option (getDay tz) (new_Date tz (year s + 1) m' 13) = Some 5"
      using m' by (simp add: getDay_new_Date_value)
    then have "\<exists>k. res ((search_body tz ^^ k) (s\<lparr>month := 0, year := year s + 1\<rparr>)) \<noteq> None"
      using m' by (intro found_in_year [where m' = m']) simp_all
    then show ?thesis using b found_later [of tz s] by simp
  qed
next
  case (Suc n)
  show ?case
  proof (cases "map_option (getDay tz) (new_Date tz (year s) (month s) 13) = Some 5")
    case True
    then show ?thesis by (rule found_now)
  next
    case False
    have lt: "month s < 12" using Suc.prems by simp
    have b: "search_body tz s = s\<lparr>month := month s + 1\<rparr>"
      using False lt by (rule next_month_step)
    have "\<exists>k. res ((search_body tz ^^ k) (s\<lparr>month := month s + 1\<rparr>)) \<noteq> None"
      using Suc.prems by (intro Suc.IH) auto
    then show ?thesis using b found_later [of tz s] by simp
  qed
qed

lemma getFullYear_lower:
  assumes tz: "\<bar>tz\<bar> \<le> 86400000" and t: "\<bar>t\<bar> \<le> 8640000000000000"
  shows "- 271821 \<le> getFullYear tz t"
proof (rule ccontr)
  define D where "D = Day (LocalTime tz t)"
  assume "\<not> - 271821 \<le> getFullYear tz t"
  then have "YearFromDay D + 1 \<le> - 271821"
    by (simp add: getFullYear_def YearFromTime_def D_def)
  then have "DayFromYear (YearFromDay D + 1) \<le> DayFromYear (- 271821)" by (rule DayFromYear_mono)
  moreover have "DayFromYear (- 271821) = - 100000109" by (simp add: DayFromYear_def)
  ultimately have "D < - 100000109" using YearFromDay_upper [of D] by simp
  then have "86400000 * D + 86400000 \<le> 86400000 * (- 100000109)" by simp
  moreover have "t + tz < 86400000 * D + 86400000"
    unfolding D_def Day_def LocalTime_def msPerDay_def by (rule fdiv_upper) simp
  ultimately show False using tz t by simp
qed

lemma search_ends:
  assumes tz: "\<bar>tz\<bar> \<le> 86400000" and t: "\<bar>t\<bar> \<le> 8640000000000000"
    and y: "getFullYear tz t \<le> 275758"
  shows "\<exists>r. getNextFridayThe13th tz t = Some r"
proof -
  have "month (search_init tz t) \<le> 12" using search_init_month [of tz t] by simp
  moreover have "- 271821 \<le> year (search_init tz t)" "year (search_init tz t) \<le> 275758"
    using getFullYear_lower [OF tz t] y by (simp_all add: search_init_def)
  ultimately have "\<exists>k. res ((search_body tz ^^ k) (search_init tz t)) \<noteq> None"
    using tz by (intro found_from) simp_all
  then have "\<exists>k. \<not> (\<lambda>s. res s = None) ((search_body tz ^^ k) (search_init tz t))" by simp
  then obtain s where s: "while_option (\<lambda>s. res s = None) (search_body tz) (search_init tz t) = Some s"
    unfolding while_option_def by auto
  then have "res s \<noteq> None" using while_option_stop [OF s] by simp
  then show ?thesis using s by (auto simp: getNextFridayThe13th_def)
qed

lemma new_Date_13_invalid:
  assumes y: "275760 \<le> y" and m: "0 \<le> m" "m \<le> 12" and p: "3309128 < 12 * y + m"
  shows "new_Date 0 y m 13 = None"
proof -
  have f: "MakeFullYear y = y" using y by (simp add: MakeFullYear_def)
  have c: "DayFromYear 275760 = 99999744" "DayFromYear 275761 = 100000110"
    "DaysInYear 275760 = 366"
    by (simp_all add: DayFromYear_def DaysInYear_def)
  have "100000000 < MakeDay y m 13"
  proof (cases "m = 12")
    case True
    have "DayFromYear 275761 \<le> DayFromYear (y + 1)" using y by (intro DayFromYear_mono) simp
    then show ?thesis using True c by (simp add: MakeDay_def DayFromMonth_def)
  next
    case False
    then have m11: "m \<le> 11" using m by simp
    show ?thesis
    proof (cases "y = 275760")
      case True
      then have "9 \<le> m" using p by simp
      then have "274 \<le> DayFromMonth m 1" using m11 by (auto simp: DayFromMonth_def)
      then show ?thesis using True c by (simp add: MakeDay_month [OF m(1) m11])
    next
      case False
      then have "DayFromYear 275761 \<le> DayFromYear y" using y by (intro DayFromYear_mono) simp
      then show ?thesis using MakeDay_13_bounds(1) [OF m(1) m11, of y] c by simp
    qed
  qed
  then have "100000000 * 86400000 < MakeDay y m 13 * 86400000" by simp
  then have "8640000000000000 < new_Date_value 0 y m 13"
    by (simp add: new_Date_value_def UTC_def MakeDate_def MakeTime_def msPerDay_def f)
  then show ?thesis by (simp add: new_Date_def TimeClip_def)
qed

lemma search_past_range:
  assumes "res s = None" "275760 \<le> year s" "0 \<le> month s" "month s \<le> 12"
    and "3309128 \<le> 12 * year s + month s"
  shows "res (search_body 0 s) = None \<and> 275760 \<le> year (search_body 0 s)
    \<and> 0 \<le> month (search_body 0 s) \<and> month (search_body 0 s) \<le> 12
    \<and> 3309128 \<le> 12 * year (search_body 0 s) + month (search_body 0 s)"
proof (cases "3309128 < 12 * year s + month s")
  case True
  then have "new_Date 0 (year s) (month s) 13 = None"
    using assms by (intro new_Date_13_invalid) simp_all
  then show ?thesis using assms by (simp add: search_body_def)
next
  case False
  then have e: "12 * year s + month s = 3309128" using assms by simp
  then have "year s < 275761" using assms(3) by simp
  then have y: "year s = 275760" using assms(2) by simp
  then have ym: "year s = 275760" "month s = 8" using e by simp_all
  have "map_option (getDay 0) (new_Date 0 275760 8 13) \<noteq> Some 5" by code_simp
  then have "map_option (getDay 0) (new_Date 0 (year s) (month s) 13) \<noteq> Some 5"
    unfolding ym .
  then have "search_body 0 s = s\<lparr>month := month s + 1\<rparr>"
    using ym by (intro next_month_step) simp_all
  then show ?thesis using assms ym by simp
qed

lemma search_never_ends: "getNextFridayThe13th 0 8640000000000000 = None"
proof -
  define s0 where "s0 = search_init 0 8640000000000000"
  have i: "s0 = \<lparr>year = 275760, month = 8, res = None\<rparr>" unfolding s0_def by code_simp
  have inv: "res ((search_body 0 ^^ k) s0) = None \<and> 275760 \<le> year ((search_body 0 ^^ k) s0)
      \<and> 0 \<le> month ((search_body 0 ^^ k) s0) \<and> month ((search_body 0 ^^ k) s0) \<le> 12
      \<and> 3309128 \<le> 12 * year ((search_body 0 ^^ k) s0) + month ((search_body 0 ^^ k) s0)" for k
  proof (induction k)
    case 0
    then show ?case by (simp add: i)
  next
    case (Suc k)
    then show ?case using search_past_range [of "(search_body 0 ^^ k) s0"] by simp
  qed
  then have "\<not> (\<exists>k. \<not> (\<lambda>s. res s = None) ((search_body 0 ^^ k) s0))" by simp
  then have "while_option (\<lambda>s. res s = None) (search_body 0) s0 = None"
    unfolding while_option_def by (simp only: if_False)
  then show ?thesis by (simp add: getNextFridayThe13th_def s0_def)
qed

subsection \<open>getWorkSchedule\<close>

text \<open>
  Claim C3. The month is padded when the index \<^verbatim>\<open>month\<close> is below 10, so October
  (index 9) is written \<^verbatim>\<open>010\<close>: the one working day of 1 to 2 October 2024 comes out
  as \<^verbatim>\<open>01-010-2024\<close>. The next working day is built by the local-time constructor from
  UTC fields, so three hours east of Greenwich the schedule of the specification's
  example repeats every three days instead of every four.
\<close>

theorem getWorkSchedule_october:
  "getWorkSchedule 0 \<lparr>start = ''01-10-2024'', endp = ''02-10-2024''\<rparr> 1 1 = Some [''01-010-2024'']
   \<and> getWorkSchedule 10800000 \<lparr>start = ''01-01-2024'', endp = ''15-01-2024''\<rparr> 1 3
       = Some [''01-01-2024'', ''04-01-2024'', ''07-01-2024'', ''10-01-2024'', ''13-01-2024'']"
  by code_simp

subsection \<open>getWeekNumberByDate\<close>

lemma new_Date_Some: "new_Date tz y m d = Some j \<Longrightarrow> j = new_Date_value tz y m d"
  by (auto simp: new_Date_def TimeClip_def split: if_splits)

text \<open>
  The first of January, at local midnight, is in week 1 of its own year.
\<close>

lemma getWeekNumberByDate_jan_1:
  assumes "new_Date tz y 0 1 = Some j"
  shows "getWeekNumberByDate tz j = Some 1"
proof -
  have j: "j = new_Date_value tz y 0 1" using assms by (rule new_Date_Some)
  have "new_Date_value tz (MakeFullYear y) 0 1 = new_Date_value tz y 0 1"
    by (simp add: new_Date_value_jan_1 MakeFullYear_idem)
  then have f: "new_Date tz (MakeFullYear y) 0 1 = Some j"
    using assms by (simp add: new_Date_def)
  have "getFullYear tz j = MakeFullYear y" unfolding j by (rule getFullYear_jan_1)
  then have "getWeekNumberByDate tz j = Some \<lceil>(of_int (j - j) / 86400000 + 1) / (7::rat)\<rceil>"
    using f by (rule getWeekNumberByDate_eval)
  also have "\<dots> = Some 1" by (simp add: ceiling_eq_iff)
  finally show ?thesis .
qed

text \<open>
  For a date whose year is not one of 0 to 99, \<^verbatim>\<open>new Date(year, 0, 1)\<close> is the local
  midnight that begins the year of the date: the date is at most 366 days after it, and
  the week number, when that midnight is a valid Date, lies between 1 and 53.
\<close>

lemma first_day_of_year:
  assumes y: "\<not> (0 \<le> getFullYear tz t \<and> getFullYear tz t \<le> 99)"
  shows "new_Date_value tz (getFullYear tz t) 0 1 \<le> t"
    and "t < new_Date_value tz (getFullYear tz t) 0 1 + 366 * msPerDay"
proof -
  define D where "D = Day (LocalTime tz t)"
  define Y where "Y = getFullYear tz t"
  have Y: "Y = YearFromDay D" by (simp add: Y_def D_def getFullYear_def YearFromTime_def)
  have "MakeFullYear Y = Y" using y by (auto simp: MakeFullYear_def Y_def)
  then have j: "new_Date_value tz Y 0 1 = DayFromYear Y * msPerDay - tz"
    by (simp add: new_Date_value_jan_1)
  have lo: "DayFromYear Y \<le> D" unfolding Y by (rule YearFromDay_lower)
  have "D < DayFromYear (Y + 1)" unfolding Y by (rule YearFromDay_upper)
  then have hi: "D + 1 \<le> DayFromYear Y + 366"
    using DayFromYear_step [of Y] DaysInYear_range [of Y] by linarith
  have d1: "msPerDay * D \<le> t + tz"
    unfolding D_def Day_def LocalTime_def by (rule fdiv_lower) (simp add: msPerDay_def)
  have d2: "t + tz < msPerDay * D + msPerDay"
    unfolding D_def Day_def LocalTime_def by (rule fdiv_upper) (simp add: msPerDay_def)
  have "DayFromYear Y * 86400000 \<le> D * 86400000" using lo by simp
  then show "new_Date_value tz (getFullYear tz t) 0 1 \<le> t"
    using d1 unfolding Y_def [symmetric] j msPerDay_def by linarith
  have "(D + 1) * 86400000 \<le> (DayFromYear Y + 366) * 86400000" using hi by simp
  then show "t < new_Date_value tz (getFullYear tz t) 0 1 + 366 * msPerDay"
    using d2 unfolding Y_def [symmetric] j msPerDay_def by (simp add: algebra_simps)
qed

lemma getWeekNumberByDate_range:
  assumes y: "\<not> (0 \<le> getFullYear tz t \<and> getFullYear tz t \<le> 99)"
    and j: "new_Date tz (getFullYear tz t) 0 1 = Some j"
  shows "\<exists>w. getWeekNumberByDate tz t = Some w \<and> 1 \<le> w \<and> w \<le> 53"
proof -
  define x where "x = t - j"
  have "j = new_Date_value tz (getFullYear tz t) 0 1" using j by (rule new_Date_Some)
  then have x: "0 \<le> x" "x < 366 * 86400000"
    using first_day_of_year [OF y] by (simp_all add: x_def msPerDay_def)
  have w: "getWeekNumberByDate tz t = Some \<lceil>(of_int x / 86400000 + 1) / (7::rat)\<rceil>"
    unfolding x_def using refl j by (rule getWeekNumberByDate_eval)
  have r0: "(0::rat) \<le> of_int x" using x by simp
  have "(of_int x :: rat) < of_int (366 * 86400000)" using x(2) by (simp only: of_int_less_iff)
  then have r1: "(of_int x :: rat) < 366 * 86400000" by simp
  have a: "(0::rat) < (of_int x / 86400000 + 1) / 7" using r0 by (simp add: add_nonneg_pos)
  have b: "(of_int x / 86400000 + 1) / 7 \<le> (53::rat)" using r1 by (simp add: field_simps)
  show ?thesis unfolding w using a b by (simp add: le_ceiling_iff ceiling_le_iff)
qed

text \<open>
  The week numbers are not those of ISO 8601: Sunday 1 January 2023 belongs to ISO week
  52 of 2022, and \<^verbatim>\<open>getWeekNumberByDate\<close> gives 1.
\<close>

lemma getWeekNumberByDate_not_iso:
  "getWeekNumberByDate 0 (Date_UTC_value 2023 0 1) = Some 1
   \<and> iso_week (Day (Date_UTC_value 2023 0 1)) = 52"
proof -
  have v: "Date_UTC_value 2023 0 1 = 1672531200000" by code_simp
  have "new_Date 0 2023 0 1 = Some 1672531200000" by code_simp
  then have "getWeekNumberByDate 0 1672531200000 = Some 1" by (rule getWeekNumberByDate_jan_1)
  moreover have "iso_week (Day 1672531200000) = 52" by code_simp
  ultimately show ?thesis unfolding v by simp
qed

text \<open>
  Claim C8. The constructor \<^verbatim>\<open>new Date(year, 0, 1)\<close> reads a year from 0 to 99 as
  1900 + year. For 15 June of the year 50 the day count starts at 1 January 1950, not at
  1 January 50: the count is -693794 days and the week number -99113, where the ceiling
  of the days since 1 January of the date's year, divided by 7, is 24.
\<close>

theorem getWeekNumberByDate_two_digit_year:
  "Date_parse ''0050-06-15T00:00:00.000Z'' = Some (- 60575040000000)
   \<and> getFullYear 0 (- 60575040000000) = 50
   \<and> new_Date 0 50 0 1 = Some (new_Date_value 0 50 0 1)
   \<and> getFullYear 0 (new_Date_value 0 50 0 1) = 1950
   \<and> getCountDaysOnPeriod (new_Date_value 0 50 0 1) (- 60575040000000) = - 693794
   \<and> getWeekNumberByDate 0 (- 60575040000000) = Some (- 99113)"
proof -
  have a: "Date_parse ''0050-06-15T00:00:00.000Z'' = Some (- 60575040000000)" by code_simp
  have b: "getFullYear 0 (- 60575040000000) = 50" by code_simp
  have c: "getFullYear 0 (new_Date_value 0 50 0 1) = 1950" by code_simp
  have j: "new_Date_value 0 50 0 1 = - 631152000000" by code_simp
  have n: "new_Date 0 50 0 1 = Some (- 631152000000)" by code_simp
  have d: "getCountDaysOnPeriod (new_Date_value 0 50 0 1) (- 60575040000000) = - 693794"
    unfolding j by (simp add: getCountDaysOnPeriod_def)
  have "getWeekNumberByDate 0 (- 60575040000000)
      = Some \<lceil>(of_int (- 60575040000000 - (- 631152000000)) / 86400000 + 1) / (7::rat)\<rceil>"
    using b n by (rule getWeekNumberByDate_eval)
  also have "\<dots> = Some (- 99113)" by (simp add: ceiling_eq_iff)
  finally show ?thesis using a b c d n unfolding j by blast
qed

end
